theory Spec2Isabelle
  imports Complex_Main "HOL-Library.Word" "HOL-Library.Sublist" "HOL-Library.Multiset"
begin

section \<open>Data model of the threat engine (include/threat\_engine.h)\<close>

text \<open>
  \<open>std::vector<char>\<close> buffers are \<open>string\<close>s: a HOL \<open>char\<close> is one byte.
  Paths and names (\<open>std::wstring\<close>) are \<open>string\<close>s as well.  \<open>uint32_t\<close> fields are
  \<open>32 word\<close>; the \<open>int32_t\<close> offset of a signature is a \<open>32 word\<close> read through
  \<open>sint\<close>.  \<open>uint64_t\<close> sizes and counters and \<open>size_t\<close> lengths are \<open>nat\<close>: no
  computation below reaches \<open>2 ^ 64\<close>.
\<close>

type_synonym path = string

record ThreatInfo =
  file_path :: path
  threat_name :: string
  threat_level :: "32 word"
  file_size :: nat

record VirusSignature =
  name :: string
  signature :: string
  severity :: "32 word"
  offset :: "32 word"

record HeuristicRule =
  rule_name :: string
  rule_description :: string
  rule_severity :: "32 word"

record QuarantineEntry =
  originalPath :: path
  quarantinePath :: path
  threatName :: string
  quarantineTime :: nat

text \<open>
  The members of \<open>class ThreatEngine\<close>.  \<open>m_logger\<close> is a pointer: the field says
  whether it is non-null; what the logger has received is part of the environment \<open>sys\<close>.
\<close>

record ThreatEngine =
  m_logger :: bool
  m_initialized :: bool
  m_databaseVersion :: "32 word"
  m_signatureCount :: "32 word"
  m_heuristicsEnabled :: bool
  m_cloudEnabled :: bool
  m_databasePath :: path
  m_quarantinePath :: path
  m_signatures :: "VirusSignature list"
  m_fileTypeSignatures :: "(string \<times> VirusSignature list) list"
  m_heuristicRules :: "HeuristicRule list"
  m_quarantineEntries :: "QuarantineEntry list"

section \<open>The environment: file system, clock, logger\<close>

datatype LogLevel = Debug | Info | Warning | Error | Critical

text \<open>One constructor per format string of the source, with the values it formats.\<close>

datatype log_msg =
    UpdatingThreatDatabase
  | DatabaseUpdatedToVersion "32 word"
  | SkippingLargeFile path nat
  | ThreatDetectedIn string path
  | HeuristicThreatDetectedIn string path
  | FileQuarantined path path string
  | FailedToQuarantineFile path
  | THREAT_DETECTED string path "32 word"
  | HighSeverityThreatAutomaticallyQuarantined path
  | QueuedFileForScan path
  | StartingFileScan path
  | FileScanCompleted nat nat
  | CannotExtractEncryptedFile string
  | FileTooLargeToExtract string
  | InvalidLocalFileHeader
  | CannotCreateOutputFile path
  | DeflateNotFullySupported string
  | UnsupportedCompressionMethod "16 word"

text \<open>
  A directory entry is a regular file with its bytes, or something else (a directory).
  \<open>can_open\<close> says whether \<open>std::ifstream\<close> opens the file.
\<close>

record fs_file =
  is_regular_file :: bool
  bytes :: string
  can_open :: bool

text \<open>
  \<open>files\<close> is the file system; \<open>now\<close> the clock (seconds since the epoch for
  \<open>system_clock\<close>, ticks for \<open>steady_clock\<close>); \<open>move_permitted\<close> is the operating
  system's verdict on a \<open>MoveFile\<close> between two paths (access rights, volumes, locks);
  \<open>metadata_dat\<close> is what \<open>metadata.dat\<close> in the quarantine directory holds, and
  \<open>metadata_writable\<close> whether it can be opened for writing; \<open>directory_entries\<close>
  is the sequence of paths a \<open>recursive_directory_iterator\<close> yields for a directory;
  \<open>can_create\<close> says whether \<open>std::ofstream\<close> can create a file at a path; \<open>log\<close> is
  what the logger has received.
\<close>

record sys =
  files :: "path \<Rightarrow> fs_file option"
  now :: nat
  move_permitted :: "path \<Rightarrow> path \<Rightarrow> bool"
  metadata_dat :: "QuarantineEntry list"
  metadata_writable :: bool
  directory_entries :: "path \<Rightarrow> path list"
  can_create :: "path \<Rightarrow> bool"
  log :: "(LogLevel \<times> log_msg) list"

definition LogFormat :: "bool \<Rightarrow> LogLevel \<Rightarrow> log_msg \<Rightarrow> sys \<Rightarrow> sys" where
  "LogFormat logger lvl msg s = (if logger then s\<lparr>log := log s @ [(lvl, msg)]\<rparr> else s)"

section \<open>Signature pass (src/threat\_engine.cpp, ThreatEngine::ScanWithSignatures)\<close>

text \<open>
  \<open>std::search(first, last, s_first, s_last)\<close>: the position of the first occurrence of
  the pattern, \<open>None\<close> for the iterator \<open>last\<close>.  On an empty range the result is
  \<open>last\<close> whatever the pattern is.
\<close>

fun std_search :: "string \<Rightarrow> string \<Rightarrow> nat option" where
  "std_search [] pat = None"
| "std_search (c # cs) pat =
     (if prefix pat (c # cs) then Some 0 else map_option Suc (std_search cs pat))"

text \<open>
  \<open>std::equal(p.begin(), p.end(), data.begin() + off)\<close>, called only when
  \<open>off + p.size() \<le> data.size()\<close>.
\<close>

definition std_equal :: "string \<Rightarrow> string \<Rightarrow> nat \<Rightarrow> bool" where
  "std_equal pat data off = (take (length pat) (drop off data) = pat)"

fun ScanWithSignatures :: "VirusSignature list \<Rightarrow> string \<Rightarrow> ThreatInfo \<Rightarrow> bool \<times> ThreatInfo" where
  "ScanWithSignatures [] data threat = (False, threat)"
| "ScanWithSignatures (sg # sigs) data threat =
     (if signature sg = [] then ScanWithSignatures sigs data threat
      else if 0 \<le> sint (offset sg) then
        (if nat (sint (offset sg)) + length (signature sg) \<le> length data
            \<and> std_equal (signature sg) data (nat (sint (offset sg)))
         then (True, threat\<lparr>threat_name := name sg, threat_level := severity sg\<rparr>)
         else ScanWithSignatures sigs data threat)
      else
        (if std_search data (signature sg) \<noteq> None
         then (True, threat\<lparr>threat_name := name sg, threat_level := severity sg\<rparr>)
         else ScanWithSignatures sigs data threat))"

text \<open>
  The matching rule in the words of the specification: a fixed offset matches when
  \<open>offset + len \<le> buffer_len\<close> and the bytes at exactly that position are the pattern;
  offset "anywhere" (a negative offset field) matches when the pattern is a contiguous
  part of the buffer.
\<close>

definition spec_signature_matches :: "VirusSignature \<Rightarrow> string \<Rightarrow> bool" where
  "spec_signature_matches sg b =
     (if 0 \<le> sint (offset sg)
      then nat (sint (offset sg)) + length (signature sg) \<le> length b
           \<and> take (length (signature sg)) (drop (nat (sint (offset sg))) b) = signature sg
      else sublist (signature sg) b)"

text \<open>The signature pass in the words of the specification: the first match of the list.\<close>

definition spec_signature_pass :: "VirusSignature list \<Rightarrow> string \<Rightarrow> ThreatInfo \<Rightarrow> bool \<times> ThreatInfo" where
  "spec_signature_pass sigs b threat =
     (case find (\<lambda>sg. spec_signature_matches sg b) sigs of
        None \<Rightarrow> (False, threat)
      | Some sg \<Rightarrow> (True, threat\<lparr>threat_name := name sg, threat_level := severity sg\<rparr>))"

text \<open>\<open>ThreatEngine::CreateDefaultDatabase\<close>: the three built-in signatures.\<close>

definition default_signatures :: "VirusSignature list" where
  "default_signatures =
     [\<lparr>name = ''PE.Suspicious.Header'', signature = ''MZ'', severity = 3, offset = 0\<rparr>,
      \<lparr>name = ''Script.Suspicious.PowerShell'', signature = ''powershell'', severity = 5, offset = - 1\<rparr>,
      \<lparr>name = ''Ransomware.Generic.Extension'', signature = ''.locked'', severity = 10, offset = - 1\<rparr>]"

section \<open>Heuristic pass (ThreatEngine::ScanWithHeuristics)\<close>

text \<open>
  What the model takes as given: the decomposition of a path by the C++ standard
  library (\<open>std::filesystem::path(p).extension()\<close> and \<open>.filename()\<close>), and the
  double returned by \<open>ThreatEngine::CalculateEntropy\<close>, which the source computes in
  floating point (a finite value, read here as a real).
\<close>

record externals =
  path_extension :: "path \<Rightarrow> string"
  path_filename :: "path \<Rightarrow> string"
  CalculateEntropy :: "string \<Rightarrow> real"

text \<open>\<open>::tolower\<close> and \<open>::towlower\<close> in the "C" locale: only A to Z change.\<close>

definition tolower :: "char \<Rightarrow> char" where
  "tolower c =
     (case map_of (zip ''ABCDEFGHIJKLMNOPQRSTUVWXYZ'' ''abcdefghijklmnopqrstuvwxyz'') c of
        Some l \<Rightarrow> l
      | None \<Rightarrow> c)"

text \<open>\<open>std::string::find\<close>: the position of the first occurrence, \<open>None\<close> for \<open>npos\<close>.\<close>

fun string_find :: "string \<Rightarrow> string \<Rightarrow> nat option" where
  "string_find [] pat = (if pat = [] then Some 0 else None)"
| "string_find (c # cs) pat =
     (if prefix pat (c # cs) then Some 0 else map_option Suc (string_find cs pat))"

definition suspiciousStrings :: "string list" where
  "suspiciousStrings =
     [''cryptolocker'', ''ransomware'', ''bitcoin'', ''your files have been encrypted'',
      ''pay the ransom'', ''keylogger'', ''password stealer'', ''backdoor'', ''trojan'']"

fun find_suspicious :: "string \<Rightarrow> string list \<Rightarrow> bool" where
  "find_suspicious lowered [] = False"
| "find_suspicious lowered (w # ws) =
     (if string_find lowered w \<noteq> None then True else find_suspicious lowered ws)"

definition ContainsSuspiciousStrings :: "string \<Rightarrow> bool" where
  "ContainsSuspiciousStrings data = find_suspicious (map tolower data) suspiciousStrings"

definition ScanWithHeuristics :: "externals \<Rightarrow> string \<Rightarrow> path \<Rightarrow> ThreatInfo \<Rightarrow> bool \<times> ThreatInfo" where
  "ScanWithHeuristics x data filePath threat =
     (let ext = map tolower (path_extension x filePath);
          isExecutable = (ext = ''.exe'' \<or> ext = ''.dll'' \<or> ext = ''.scr'' \<or> ext = ''.com'')
      in if isExecutable \<and> length data < 1024
         then (True, threat\<lparr>threat_name := ''Heuristic.Suspicious.TinyExecutable'', threat_level := 6\<rparr>)
         else if 7.5 < CalculateEntropy x data
         then (True, threat\<lparr>threat_name := ''Heuristic.Suspicious.HighEntropy'', threat_level := 7\<rparr>)
         else if ContainsSuspiciousStrings data
         then (True, threat\<lparr>threat_name := ''Heuristic.Suspicious.Strings'', threat_level := 5\<rparr>)
         else (False, threat))"

section \<open>Scanning a file (ThreatEngine::ScanFile)\<close>

definition FileExists :: "sys \<Rightarrow> path \<Rightarrow> bool" where
  "FileExists s p = (case files s p of None \<Rightarrow> False | Some f \<Rightarrow> is_regular_file f)"

definition GetFileSize :: "sys \<Rightarrow> path \<Rightarrow> nat" where
  "GetFileSize s p =
     (case files s p of
        None \<Rightarrow> 0
      | Some f \<Rightarrow> if is_regular_file f then length (bytes f) else 0)"

definition MAX_SCAN_SIZE :: nat where
  "MAX_SCAN_SIZE = 100 * 1024 * 1024"

text \<open>
  The out-parameter \<open>threat\<close> is passed in and returned.  The \<open>catch\<close> block of the
  source (an exception of the standard library, such as a failed allocation) has no
  counterpart: the model raises nothing.
\<close>

definition ScanFile :: "externals \<Rightarrow> ThreatEngine \<Rightarrow> sys \<Rightarrow> path \<Rightarrow> ThreatInfo \<Rightarrow> bool \<times> ThreatInfo \<times> sys" where
  "ScanFile x e s filePath threat =
     (if \<not> m_initialized e then (False, threat, s)
      else if \<not> FileExists s filePath then (False, threat, s)
      else
        let fileSize = GetFileSize s filePath in
        if fileSize = 0 then (False, threat, s)
        else if fileSize > MAX_SCAN_SIZE
        then (False, threat, LogFormat (m_logger e) Info (SkippingLargeFile filePath fileSize) s)
        else
          case files s filePath of
            None \<Rightarrow> (False, threat, s)
          | Some f \<Rightarrow>
              if \<not> can_open f then (False, threat, s)
              else
                let buffer = bytes f;
                    (found, t1) = ScanWithSignatures (m_signatures e) buffer threat
                in if found
                   then (True, t1\<lparr>file_path := filePath, file_size := fileSize\<rparr>,
                         LogFormat (m_logger e) Warning (ThreatDetectedIn (threat_name t1) filePath) s)
                   else if m_heuristicsEnabled e
                   then
                     (let (hfound, t2) = ScanWithHeuristics x buffer filePath t1
                      in if hfound
                         then (True, t2\<lparr>file_path := filePath, file_size := fileSize\<rparr>,
                               LogFormat (m_logger e) Warning
                                 (HeuristicThreatDetectedIn (threat_name t2) filePath) s)
                         else (False, t2, s))
                   else (False, t1, s))"

text \<open>
  The verdict of the specification, \<open>Clean\<close> or \<open>Threat\<close> with name and severity, read
  off the boolean result and the out-parameter.
\<close>

datatype Verdict = Clean | Threat string "32 word"

definition verdict :: "bool \<times> ThreatInfo \<Rightarrow> Verdict" where
  "verdict r = (if fst r then Threat (threat_name (snd r)) (threat_level (snd r)) else Clean)"

definition file_verdict :: "bool \<times> ThreatInfo \<times> sys \<Rightarrow> Verdict" where
  "file_verdict r = verdict (fst r, fst (snd r))"

text \<open>
  The heuristic rules in the words of the specification, in declared order: the
  lower-cased extension and the size decide tiny-executable, the entropy decides
  high-entropy, and a word of the list occurring in the lower-cased bytes decides
  suspicious-strings.
\<close>

definition spec_heuristic_rules :: "string \<Rightarrow> nat \<Rightarrow> real \<Rightarrow> string \<Rightarrow> Verdict" where
  "spec_heuristic_rules ext sz entropy data =
     (if ext \<in> {''.exe'', ''.dll'', ''.scr'', ''.com''} \<and> sz < 1024
      then Threat ''Heuristic.Suspicious.TinyExecutable'' 6
      else if entropy > 7.5
      then Threat ''Heuristic.Suspicious.HighEntropy'' 7
      else if list_ex (\<lambda>w. sublist w (map tolower data)) suspiciousStrings
      then Threat ''Heuristic.Suspicious.Strings'' 5
      else Clean)"

section \<open>Quarantine (ThreatEngine::QuarantineFile)\<close>

text \<open>
  Win32 \<open>MoveFile\<close> (a rename, without the copy fallback): it fails when the source
  is missing, when the destination exists or when the operating system refuses; a
  failed call changes nothing.
\<close>

definition MoveFile :: "sys \<Rightarrow> path \<Rightarrow> path \<Rightarrow> bool \<times> sys" where
  "MoveFile s src dst =
     (case files s src of
        None \<Rightarrow> (False, s)
      | Some f \<Rightarrow>
          if files s dst \<noteq> None \<or> \<not> move_permitted s src dst then (False, s)
          else (True, s\<lparr>files := (files s)(src := None, dst := Some f)\<rparr>))"

text \<open>
  \<open>SaveQuarantineMetadata\<close> rewrites \<open>metadata.dat\<close> from the in-memory entries when
  the file opens, and does nothing otherwise.
\<close>

definition SaveQuarantineMetadata :: "ThreatEngine \<Rightarrow> sys \<Rightarrow> sys" where
  "SaveQuarantineMetadata e s =
     (if metadata_writable s then s\<lparr>metadata_dat := m_quarantineEntries e\<rparr> else s)"

text \<open>\<open>std::to_wstring\<close> of a non-negative count: its decimal digits.\<close>

function to_wstring :: "nat \<Rightarrow> string" where
  "to_wstring n =
     (if n < 10 then [''0123456789'' ! n]
      else to_wstring (n div 10) @ [''0123456789'' ! (n mod 10)])"
  by pat_completeness auto
termination
  by (relation "measure id") auto

text \<open>The name of the file in the vault: directory, backslash, timestamp, underscore, file name.\<close>

definition quarantineFile :: "externals \<Rightarrow> ThreatEngine \<Rightarrow> sys \<Rightarrow> path \<Rightarrow> path" where
  "quarantineFile x e s filePath =
     m_quarantinePath e @ [CHR 0x5C] @ to_wstring (now s) @ ''_'' @ path_filename x filePath"

definition QuarantineFile :: "externals \<Rightarrow> ThreatEngine \<Rightarrow> sys \<Rightarrow> path \<Rightarrow> string \<Rightarrow> bool \<times> ThreatEngine \<times> sys" where
  "QuarantineFile x e s filePath threatName' =
     (if \<not> m_initialized e then (False, e, s)
      else if \<not> FileExists s filePath then (False, e, s)
      else
        let timestamp = now s;
            (moved, s1) = MoveFile s filePath (quarantineFile x e s filePath)
        in if moved
           then
             let entry = \<lparr>originalPath = filePath, quarantinePath = quarantineFile x e s filePath,
                          threatName = threatName', quarantineTime = timestamp\<rparr>;
                 e1 = e\<lparr>m_quarantineEntries := m_quarantineEntries e @ [entry]\<rparr>;
                 s2 = SaveQuarantineMetadata e1 s1
             in (True, e1,
                 LogFormat (m_logger e) Info
                   (FileQuarantined filePath (quarantineFile x e s filePath) threatName') s2)
           else (False, e, LogFormat (m_logger e) Error (FailedToQuarantineFile filePath) s1))"

section \<open>The scan queue (service/include/file\_monitor.h)\<close>

record ScanRequest =
  filePath :: path
  priority :: "32 word"
  timestamp :: nat

text \<open>\<open>ScanRequest::operator<\<close>: the priorities alone are compared.\<close>

definition operator_less :: "ScanRequest \<Rightarrow> ScanRequest \<Rightarrow> bool" where
  "operator_less a b = (priority a < priority b)"

text \<open>
  \<open>std::priority_queue<ScanRequest>\<close> is a \<open>std::vector\<close> kept as a binary heap:
  \<open>push\<close> is \<open>push_back\<close> then \<open>std::push_heap\<close>, \<open>pop\<close> is \<open>std::pop_heap\<close> then
  \<open>pop_back\<close>, \<open>top\<close> is \<open>front\<close>.  The two heap algorithms are those of the
  standard library the service is built with (the hole is moved up to where the value
  belongs; on a pop the hole is first moved down to a leaf along the larger children).
\<close>

function push_heap_by_index :: "('a \<Rightarrow> 'a \<Rightarrow> bool) \<Rightarrow> 'a list \<Rightarrow> nat \<Rightarrow> nat \<Rightarrow> 'a \<Rightarrow> 'a list" where
  "push_heap_by_index cmp h hole topIdx v =
     (if topIdx < hole \<and> cmp (h ! ((hole - 1) div 2)) v
      then push_heap_by_index cmp (h[hole := h ! ((hole - 1) div 2)]) ((hole - 1) div 2) topIdx v
      else h[hole := v])"
  by pat_completeness auto
termination
  by (relation "measure (\<lambda>(cmp, h, hole, topIdx, v). hole)") auto

definition push_heap :: "('a \<Rightarrow> 'a \<Rightarrow> bool) \<Rightarrow> 'a list \<Rightarrow> 'a list" where
  "push_heap cmp c =
     (if 2 \<le> length c then push_heap_by_index cmp c (length c - 1) 0 (last c) else c)"

function percolate_hole :: "('a \<Rightarrow> 'a \<Rightarrow> bool) \<Rightarrow> 'a list \<Rightarrow> nat \<Rightarrow> nat \<Rightarrow> 'a list \<times> nat" where
  "percolate_hole cmp h idx bottom =
     (if idx < (bottom - 1) div 2
      then
        let r = 2 * idx + 2;
            c = (if cmp (h ! r) (h ! (r - 1)) then r - 1 else r)
        in percolate_hole cmp (h[idx := h ! c]) c bottom
      else (h, idx))"
  by pat_completeness auto
termination
  by (relation "measure (\<lambda>(cmp, h, idx, bottom). bottom - idx)") (auto simp: Let_def)

text \<open>Called with \<open>1 \<le> bottom\<close> only: \<open>pop_heap\<close> does nothing on fewer than two elements.\<close>

definition pop_heap_hole_by_index :: "('a \<Rightarrow> 'a \<Rightarrow> bool) \<Rightarrow> 'a list \<Rightarrow> nat \<Rightarrow> nat \<Rightarrow> 'a \<Rightarrow> 'a list" where
  "pop_heap_hole_by_index cmp h hole bottom v =
     (let (h1, idx) = percolate_hole cmp h hole bottom;
          (h2, hole2) =
             (if idx = (bottom - 1) div 2 \<and> bottom mod 2 = 0
              then (h1[idx := h1 ! (bottom - 1)], bottom - 1)
              else (h1, idx))
      in push_heap_by_index cmp h2 hole2 hole v)"

definition pop_heap :: "('a \<Rightarrow> 'a \<Rightarrow> bool) \<Rightarrow> 'a list \<Rightarrow> 'a list" where
  "pop_heap cmp c =
     (if 2 \<le> length c
      then pop_heap_hole_by_index cmp (c[length c - 1 := c ! 0]) 0 (length c - 1) (last c)
      else c)"

definition pq_push :: "('a \<Rightarrow> 'a \<Rightarrow> bool) \<Rightarrow> 'a list \<Rightarrow> 'a \<Rightarrow> 'a list" where
  "pq_push cmp c x = push_heap cmp (c @ [x])"

definition pq_pop :: "('a \<Rightarrow> 'a \<Rightarrow> bool) \<Rightarrow> 'a list \<Rightarrow> 'a list" where
  "pq_pop cmp c = butlast (pop_heap cmp c)"

definition pq_top :: "'a list \<Rightarrow> 'a" where
  "pq_top c = hd c"

text \<open>
  The heap order of the vector under a key: every element is at most its parent, the
  parent of index \<open>i\<close> being \<open>(i - 1) div 2\<close>.  \<open>heap_except\<close> is the same order
  while a hole is being moved: the edges that touch the hole are left out, and the
  children of the hole are at most its parent.
\<close>

definition is_heap :: "('a \<Rightarrow> 'k::linorder) \<Rightarrow> 'a list \<Rightarrow> bool" where
  "is_heap key h = list_all (\<lambda>i. key (h ! i) \<le> key (h ! ((i - 1) div 2))) [1..<length h]"

definition heap_except :: "('a \<Rightarrow> 'k::linorder) \<Rightarrow> 'a list \<Rightarrow> nat \<Rightarrow> bool" where
  "heap_except key h k =
     ((\<forall>i. 0 < i \<and> i < length h \<and> i \<noteq> k \<and> (i - 1) div 2 \<noteq> k \<longrightarrow>
            key (h ! i) \<le> key (h ! ((i - 1) div 2)))
      \<and> (\<forall>i. 0 < i \<and> i < length h \<and> (i - 1) div 2 = k \<and> 0 < k \<longrightarrow>
            key (h ! i) \<le> key (h ! ((k - 1) div 2))))"

text \<open>The queues the monitor can hold: empty at first, then changed by pushes and pops.\<close>

inductive queue_state :: "ScanRequest list \<Rightarrow> bool" where
  empty: "queue_state []"
| push: "queue_state c \<Longrightarrow> queue_state (pq_push operator_less c x)"
| pop: "queue_state c \<Longrightarrow> queue_state (pq_pop operator_less c)"

section \<open>The real-time file monitor (src/file\_monitor.cpp)\<close>

text \<open>
  The members of \<open>class FileMonitor\<close> that the scan path uses.  \<open>fm_logger\<close> is
  \<open>m_logger\<close> (non-null or not); the engine behind \<open>m_threatEngine\<close> is passed to each
  function as a \<open>ThreatEngine option\<close>, \<open>None\<close> for a null pointer.
\<close>

record FileMonitor =
  fm_logger :: bool
  m_running :: bool
  m_realTimeProtectionEnabled :: bool
  m_maxThreads :: nat
  m_watchedPaths :: "path list"
  m_scanQueue :: "ScanRequest list"
  m_scanDelayMs :: "32 word"

definition FILE_ACTION_ADDED :: "32 word" where "FILE_ACTION_ADDED = 1"
definition FILE_ACTION_REMOVED :: "32 word" where "FILE_ACTION_REMOVED = 2"
definition FILE_ACTION_MODIFIED :: "32 word" where "FILE_ACTION_MODIFIED = 3"

definition contains :: "string \<Rightarrow> string \<Rightarrow> bool" where
  "contains lowerPath pat = (string_find lowerPath pat \<noteq> None)"

definition skipExtensions :: "string list" where
  "skipExtensions = [''.log'', ''.tmp'', ''.temp'', ''.swp'', ''.bak'', ''.txt'', ''.ini'', ''.xml'', ''.json'']"

definition ShouldSkipFile :: "externals \<Rightarrow> path \<Rightarrow> bool" where
  "ShouldSkipFile x filePath' =
     (let lowerPath = map tolower filePath';
          bs = [CHR 0x5C]
      in if contains lowerPath (bs @ ''temp'' @ bs)
            \<or> contains lowerPath (bs @ ''tmp'' @ bs)
            \<or> contains lowerPath (bs @ ''appdata'' @ bs @ ''local'' @ bs @ ''temp'' @ bs)
         then True
         else if contains lowerPath (bs @ ''windows'' @ bs @ ''winsxs'' @ bs)
            \<or> contains lowerPath (bs @ ''windows'' @ bs @ ''servicing'' @ bs)
            \<or> contains lowerPath (bs @ ''system volume information'' @ bs)
         then True
         else if map tolower (path_extension x filePath') \<in> set skipExtensions
         then True
         else False)"

definition DetermineScanPriority :: "externals \<Rightarrow> path \<Rightarrow> 32 word" where
  "DetermineScanPriority x filePath' =
     (let ext = map tolower (path_extension x filePath')
      in if ext = ''.exe'' \<or> ext = ''.dll'' \<or> ext = ''.scr'' \<or> ext = ''.com'' \<or> ext = ''.pif''
         then 10
         else if ext = ''.bat'' \<or> ext = ''.cmd'' \<or> ext = ''.ps1'' \<or> ext = ''.vbs'' \<or> ext = ''.js''
         then 7
         else if ext = ''.doc'' \<or> ext = ''.docx'' \<or> ext = ''.xls'' \<or> ext = ''.xlsx''
                 \<or> ext = ''.ppt'' \<or> ext = ''.pptx''
         then 5
         else if ext = ''.zip'' \<or> ext = ''.rar'' \<or> ext = ''.7z'' \<or> ext = ''.tar''
         then 3
         else 1)"

definition ProcessFileEvent :: "externals \<Rightarrow> FileMonitor \<Rightarrow> sys \<Rightarrow> path \<Rightarrow> 32 word \<Rightarrow> FileMonitor \<times> sys" where
  "ProcessFileEvent x m s filePath' action =
     (if \<not> m_realTimeProtectionEnabled m then (m, s)
      else if ShouldSkipFile x filePath' then (m, s)
      else if action = FILE_ACTION_ADDED \<or> action = FILE_ACTION_MODIFIED
      then
        let request = \<lparr>filePath = filePath', priority = DetermineScanPriority x filePath',
                       timestamp = now s\<rparr>
        in (m\<lparr>m_scanQueue := pq_push operator_less (m_scanQueue m) request\<rparr>,
            LogFormat (fm_logger m) Debug (QueuedFileForScan filePath') s)
      else (m, s))"

definition HandleThreatDetection :: "externals \<Rightarrow> FileMonitor \<Rightarrow> ThreatEngine option \<Rightarrow> sys \<Rightarrow> ThreatInfo \<Rightarrow> ThreatEngine option \<times> sys" where
  "HandleThreatDetection x m eng s threat =
     (let s1 = LogFormat (fm_logger m) Critical
                 (THREAT_DETECTED (threat_name threat) (file_path threat) (threat_level threat)) s
      in if 8 \<le> threat_level threat
         then
           (case eng of
              None \<Rightarrow> (None, s1)
            | Some e \<Rightarrow>
                let (ok, e1, s2) = QuarantineFile x e s1 (file_path threat) (threat_name threat)
                in if ok
                   then (Some e1, LogFormat (fm_logger m) Info
                           (HighSeverityThreatAutomaticallyQuarantined (file_path threat)) s2)
                   else (Some e1, s2))
         else (eng, s1))"

text \<open>
  The local \<open>ThreatInfo threat\<close> of \<open>ProcessScanRequest\<close> starts with empty strings; its
  two integers are not initialised in the source and are written before they are read.
  The sleep of \<open>m_scanDelayMs\<close> has no effect on the state.
\<close>

definition ProcessScanRequest :: "externals \<Rightarrow> FileMonitor \<Rightarrow> ThreatEngine option \<Rightarrow> sys \<Rightarrow> ScanRequest \<Rightarrow> ThreatEngine option \<times> sys" where
  "ProcessScanRequest x m eng s request =
     (if \<not> FileExists s (filePath request) then (eng, s)
      else
        case eng of
          None \<Rightarrow> (eng, s)
        | Some e \<Rightarrow>
            let (found, threat, s1) =
                  ScanFile x e s (filePath request)
                    \<lparr>file_path = [], threat_name = [], threat_level = 0, file_size = 0\<rparr>
            in if found then HandleThreatDetection x m eng s1 threat else (eng, s1))"

text \<open>
  One turn of \<open>WorkerThread\<close> once it holds the lock: the request at the top is taken
  off the queue and processed.
\<close>

definition WorkerThread_step :: "externals \<Rightarrow> FileMonitor \<Rightarrow> ThreatEngine option \<Rightarrow> sys \<Rightarrow> FileMonitor \<times> ThreatEngine option \<times> sys" where
  "WorkerThread_step x m eng s =
     (if \<not> m_running m then (m, eng, s)
      else if m_scanQueue m \<noteq> []
      then
        let request = pq_top (m_scanQueue m);
            m1 = m\<lparr>m_scanQueue := pq_pop operator_less (m_scanQueue m)\<rparr>;
            (eng1, s1) = ProcessScanRequest x m1 eng s request
        in (m1, eng1, s1)
      else (m, eng, s))"

text \<open>The first \<open>n\<close> requests in the order in which the queue hands them out.\<close>

fun dequeue_n :: "('a \<Rightarrow> 'a \<Rightarrow> bool) \<Rightarrow> nat \<Rightarrow> 'a list \<Rightarrow> 'a list" where
  "dequeue_n cmp 0 c = []"
| "dequeue_n cmp (Suc n) c =
     (if c = [] then [] else pq_top c # dequeue_n cmp n (pq_pop cmp c))"

section \<open>The on-demand scanner (src/scanner.cpp)\<close>

datatype ScanResult = Success | Failed | Cancelled | AccessDenied

text \<open>\<open>progressPercent\<close> is a \<open>uint32_t\<close>, kept as a \<open>nat\<close> below \<open>2 ^ 32\<close>.\<close>

record ScanStatistics =
  totalFiles :: nat
  scannedFiles :: nat
  skippedFiles :: nat
  threatsFound :: nat
  totalBytes :: nat
  scannedBytes :: nat
  progressPercent :: nat
  startTime :: nat
  endTime :: nat

record ScanOptions =
  scanArchives :: bool
  deepScan :: bool
  heuristicAnalysis :: bool
  followSymlinks :: bool
  maxFileSize :: nat
  exclusions :: "path list"
  extensions :: "string list"

text \<open>
  The members of \<open>class Scanner\<close>.  \<open>sc_logger\<close> is \<open>m_logger\<close>; the two callbacks
  are recorded as set or not set: what they do is outside the scanner.  The engine
  behind \<open>m_threatEngine\<close> is passed as a \<open>ThreatEngine option\<close>.
\<close>

record Scanner =
  sc_logger :: bool
  m_options :: ScanOptions
  m_statistics :: ScanStatistics
  m_isScanning :: bool
  m_cancelRequested :: bool
  m_progressCallback :: bool
  m_threatCallback :: bool

fun IsExcludedPath_loop :: "string \<Rightarrow> path list \<Rightarrow> bool" where
  "IsExcludedPath_loop lowerPath [] = False"
| "IsExcludedPath_loop lowerPath (exclusion # rest) =
     (if string_find lowerPath (map tolower exclusion) = Some 0 then True
      else IsExcludedPath_loop lowerPath rest)"

definition IsExcludedPath :: "Scanner \<Rightarrow> path \<Rightarrow> bool" where
  "IsExcludedPath sc p = IsExcludedPath_loop (map tolower p) (exclusions (m_options sc))"

definition IsAllowedExtension :: "Scanner \<Rightarrow> string \<Rightarrow> bool" where
  "IsAllowedExtension sc extension =
     (if extensions (m_options sc) = [] then True
      else map tolower extension \<in> set (extensions (m_options sc)))"

definition ShouldScanFile :: "externals \<Rightarrow> Scanner \<Rightarrow> sys \<Rightarrow> path \<Rightarrow> bool" where
  "ShouldScanFile x sc s p =
     (if GetFileSize s p > maxFileSize (m_options sc) then False
      else if extensions (m_options sc) \<noteq> []
              \<and> \<not> IsAllowedExtension sc (map tolower (path_extension x p))
      then False
      else \<not> IsExcludedPath sc p)"

definition UpdateProgress :: "Scanner \<Rightarrow> Scanner" where
  "UpdateProgress sc =
     (let st = m_statistics sc;
          st1 = (if totalFiles st > 0
                 then st\<lparr>progressPercent := (scannedFiles st * 100 div totalFiles st) mod 2 ^ 32\<rparr>
                 else st);
          st2 = (if progressPercent st1 > 100 then st1\<lparr>progressPercent := 100\<rparr> else st1)
      in sc\<lparr>m_statistics := st2\<rparr>)"

definition ResetStatistics :: "Scanner \<Rightarrow> sys \<Rightarrow> Scanner" where
  "ResetStatistics sc s =
     sc\<lparr>m_statistics :=
          \<lparr>totalFiles = 0, scannedFiles = 0, skippedFiles = 0, threatsFound = 0, totalBytes = 0,
           scannedBytes = 0, progressPercent = 0, startTime = now s, endTime = 0\<rparr>\<rparr>"

text \<open>
  \<open>Scanner::ScanSingleFile\<close>.  The \<open>catch\<close> block (an exception out of the engine or
  a callback) has no counterpart: the model raises nothing.
\<close>

definition ScanSingleFile :: "externals \<Rightarrow> Scanner \<Rightarrow> ThreatEngine option \<Rightarrow> sys \<Rightarrow> path \<Rightarrow> ThreatInfo list \<Rightarrow> ScanResult \<times> Scanner \<times> ThreatInfo list \<times> sys" where
  "ScanSingleFile x sc eng s p threats =
     (if m_cancelRequested sc then (Cancelled, sc, threats, s)
      else if \<not> ShouldScanFile x sc s p
      then (Success,
            sc\<lparr>m_statistics := (m_statistics sc)\<lparr>skippedFiles := skippedFiles (m_statistics sc) + 1\<rparr>\<rparr>,
            threats, s)
      else
        let sc1 = (if m_progressCallback sc then UpdateProgress sc else sc);
            (isThreat, threat, s1) =
               (case eng of
                  None \<Rightarrow> (False, \<lparr>file_path = [], threat_name = [], threat_level = 0, file_size = 0\<rparr>, s)
                | Some e \<Rightarrow>
                    ScanFile x e s p \<lparr>file_path = [], threat_name = [], threat_level = 0, file_size = 0\<rparr>);
            st1 = (m_statistics sc1)
                    \<lparr>scannedFiles := scannedFiles (m_statistics sc1) + 1,
                     scannedBytes := scannedBytes (m_statistics sc1) + GetFileSize s1 p\<rparr>
        in if isThreat
           then (Success, sc1\<lparr>m_statistics := st1\<lparr>threatsFound := threatsFound st1 + 1\<rparr>\<rparr>,
                 threats @ [threat], s1)
           else (Success, sc1\<lparr>m_statistics := st1\<rparr>, threats, s1))"

text \<open>The loop of \<open>Scanner::ScanDirectoryRecursive\<close> over the entries of the iterator.\<close>

fun ScanDirectoryRecursive_loop :: "externals \<Rightarrow> Scanner \<Rightarrow> ThreatEngine option \<Rightarrow> sys \<Rightarrow> path list \<Rightarrow> ThreatInfo list \<Rightarrow> Scanner \<times> ThreatInfo list \<times> sys" where
  "ScanDirectoryRecursive_loop x sc eng s [] threats = (sc, threats, s)"
| "ScanDirectoryRecursive_loop x sc eng s (entry # rest) threats =
     (if m_cancelRequested sc then (sc, threats, s)
      else if FileExists s entry
      then
        let sc1 = sc\<lparr>m_statistics := (m_statistics sc)
                     \<lparr>totalFiles := totalFiles (m_statistics sc) + 1,
                      totalBytes := totalBytes (m_statistics sc) + GetFileSize s entry\<rparr>\<rparr>;
            (r, sc2, threats2, s2) = ScanSingleFile x sc1 eng s entry threats
        in ScanDirectoryRecursive_loop x sc2 eng s2 rest threats2
      else ScanDirectoryRecursive_loop x sc eng s rest threats)"

definition ScanDirectoryRecursive :: "externals \<Rightarrow> Scanner \<Rightarrow> ThreatEngine option \<Rightarrow> sys \<Rightarrow> path \<Rightarrow> ThreatInfo list \<Rightarrow> Scanner \<times> ThreatInfo list \<times> sys" where
  "ScanDirectoryRecursive x sc eng s dirPath threats =
     ScanDirectoryRecursive_loop x sc eng s (directory_entries s dirPath) threats"

text \<open>\<open>Scanner::ScanFile\<close>, the scan of a single file.\<close>

definition Scanner_ScanFile :: "externals \<Rightarrow> Scanner \<Rightarrow> ThreatEngine option \<Rightarrow> sys \<Rightarrow> path \<Rightarrow> ThreatInfo list \<Rightarrow> ScanResult \<times> Scanner \<times> ThreatInfo list \<times> sys" where
  "Scanner_ScanFile x sc eng s p threats =
     (let s1 = LogFormat (sc_logger sc) Info (StartingFileScan p) s;
          sc1 = ResetStatistics sc s1;
          sc2 = sc1\<lparr>m_statistics := (m_statistics sc1)\<lparr>startTime := now s1\<rparr>\<rparr>;
          (result, sc3, threats3, s3) = ScanSingleFile x sc2 eng s1 p threats;
          sc4 = sc3\<lparr>m_statistics := (m_statistics sc3)\<lparr>endTime := now s3, progressPercent := 100\<rparr>\<rparr>;
          s4 = LogFormat (sc_logger sc) Info
                 (FileScanCompleted (endTime (m_statistics sc4) - startTime (m_statistics sc4))
                    (threatsFound (m_statistics sc4))) s3
      in (result, sc4, threats3, s4))"

section \<open>Extraction of a ZIP entry (service/src/archive\_scanner.cpp)\<close>

record ArchiveEntry =
  entry_name :: string
  compressedSize :: "32 word"
  uncompressedSize :: "32 word"
  crc32 :: "32 word"
  encrypted :: bool
  isDirectory :: bool
  compressionMethod :: "16 word"
  localHeaderOffset :: "32 word"

text \<open>The packed \<open>struct ZipLocalFileHeader\<close>: 30 bytes, little-endian.\<close>

record ZipLocalFileHeader =
  lfh_signature :: "32 word"
  lfh_version :: "16 word"
  lfh_flags :: "16 word"
  lfh_compression :: "16 word"
  lfh_modTime :: "16 word"
  lfh_modDate :: "16 word"
  lfh_crc32 :: "32 word"
  lfh_compressedSize :: "32 word"
  lfh_uncompressedSize :: "32 word"
  lfh_fileNameLength :: "16 word"
  lfh_extraFieldLength :: "16 word"

definition le16 :: "string \<Rightarrow> nat \<Rightarrow> 16 word" where
  "le16 b i = word_of_nat (of_char (b ! i) + 256 * of_char (b ! (i + 1)))"

definition le32 :: "string \<Rightarrow> nat \<Rightarrow> 32 word" where
  "le32 b i = word_of_nat (of_char (b ! i) + 256 * of_char (b ! (i + 1))
                + 65536 * of_char (b ! (i + 2)) + 16777216 * of_char (b ! (i + 3)))"

text \<open>
  Reading the header from the stream positioned at the local header: \<open>None\<close> when
  fewer than 30 bytes are left (the source then goes on with a header it has not
  filled in; the model stops there).
\<close>

definition read_lfh :: "string \<Rightarrow> ZipLocalFileHeader option" where
  "read_lfh b =
     (if length b < 30 then None
      else Some \<lparr>lfh_signature = le32 b 0, lfh_version = le16 b 4, lfh_flags = le16 b 6,
                 lfh_compression = le16 b 8, lfh_modTime = le16 b 10, lfh_modDate = le16 b 12,
                 lfh_crc32 = le32 b 14, lfh_compressedSize = le32 b 18,
                 lfh_uncompressedSize = le32 b 22, lfh_fileNameLength = le16 b 26,
                 lfh_extraFieldLength = le16 b 28\<rparr>)"

text \<open>
  \<open>std::vector<char> buffer(n); zipFile.read(buffer.data(), n)\<close>: the buffer starts as
  \<open>n\<close> zero bytes and the read fills in what the stream still has.
\<close>

definition read_buffer :: "string \<Rightarrow> nat \<Rightarrow> string" where
  "read_buffer stream n = take n stream @ replicate (n - length stream) (CHR 0x00)"

record ArchiveScanner =
  as_initialized :: bool
  m_maxNestingLevel :: nat
  m_maxExtractedSize :: nat
  m_tempDirectory :: string

definition write_output :: "sys \<Rightarrow> path \<Rightarrow> string \<Rightarrow> sys" where
  "write_output s outputPath b =
     s\<lparr>files := (files s)(outputPath := Some \<lparr>is_regular_file = True, bytes = b, can_open = True\<rparr>)\<rparr>"

definition DeleteFileA :: "sys \<Rightarrow> path \<Rightarrow> sys" where
  "DeleteFileA s p = s\<lparr>files := (files s)(p := None)\<rparr>"

text \<open>
  \<open>ArchiveScanner::extractZipEntry\<close>.  The result is \<open>None\<close> where the source reads a
  header that the stream did not fill; otherwise the boolean result and the new state.
  Opening the output stream creates the file empty.
\<close>

definition extractZipEntry :: "ArchiveScanner \<Rightarrow> sys \<Rightarrow> path \<Rightarrow> ArchiveEntry \<Rightarrow> path \<Rightarrow> (bool \<times> sys) option" where
  "extractZipEntry a s zipPath entry outputPath =
     (if encrypted entry
      then Some (False, LogFormat True Warning (CannotExtractEncryptedFile (entry_name entry)) s)
      else if unat (uncompressedSize entry) > m_maxExtractedSize a div 10
      then Some (False, LogFormat True Warning (FileTooLargeToExtract (entry_name entry)) s)
      else
        case files s zipPath of
          None \<Rightarrow> Some (False, s)
        | Some zf \<Rightarrow>
            if \<not> can_open zf then Some (False, s)
            else
              case read_lfh (drop (unat (localHeaderOffset entry)) (bytes zf)) of
                None \<Rightarrow> None
              | Some lfh \<Rightarrow>
                  if lfh_signature lfh \<noteq> 0x04034b50
                  then Some (False, LogFormat True Error InvalidLocalFileHeader s)
                  else
                    let stream = drop (unat (localHeaderOffset entry) + 30
                                       + unat (lfh_fileNameLength lfh)
                                       + unat (lfh_extraFieldLength lfh)) (bytes zf)
                    in if \<not> can_create s outputPath
                       then Some (False, LogFormat True Error (CannotCreateOutputFile outputPath) s)
                       else
                         let s1 = write_output s outputPath []
                         in if lfh_compression lfh = 0
                            then
                              Some (True, write_output s1 outputPath
                                            (read_buffer stream (unat (lfh_compressedSize lfh))))
                            else if lfh_compression lfh = 8
                            then
                              (let s2 = LogFormat True Warning
                                          (DeflateNotFullySupported (entry_name entry)) s1
                               in if lfh_compressedSize lfh = lfh_uncompressedSize lfh
                                  then Some (True, write_output s2 outputPath
                                                     (read_buffer stream (unat (lfh_compressedSize lfh))))
                                  else Some (False, DeleteFileA s2 outputPath))
                            else
                              Some (False,
                                    DeleteFileA
                                      (LogFormat True Warning
                                         (UnsupportedCompressionMethod (lfh_compression lfh)) s1)
                                      outputPath))"

section \<open>Database update (ThreatEngine::UpdateDatabase)\<close>

definition UpdateDatabase :: "ThreatEngine \<Rightarrow> sys \<Rightarrow> bool \<times> ThreatEngine \<times> sys" where
  "UpdateDatabase e s =
     (let s1 = LogFormat (m_logger e) Info UpdatingThreatDatabase s;
          e1 = e\<lparr>m_databaseVersion := m_databaseVersion e + 1\<rparr>;
          s2 = LogFormat (m_logger e1) Info (DatabaseUpdatedToVersion (m_databaseVersion e1)) s1
      in (True, e1, s2))"

section \<open>Concrete inputs\<close>

definition ex_threat :: ThreatInfo where
  "ex_threat = \<lparr>file_path = [], threat_name = [], threat_level = 0, file_size = 0\<rparr>"

definition ex_externals :: externals where
  "ex_externals = \<lparr>path_extension = (\<lambda>p. ''.EXE''), path_filename = (\<lambda>p. p),
                    CalculateEntropy = (\<lambda>d. 79 / 10)\<rparr>"

definition ex_engine :: "VirusSignature list \<Rightarrow> ThreatEngine" where
  "ex_engine sigs = \<lparr>m_logger = True, m_initialized = True, m_databaseVersion = 1,
        m_signatureCount = word_of_nat (length sigs),
        m_heuristicsEnabled = True, m_cloudEnabled = False, m_databasePath = ''C:/db'',
        m_quarantinePath = ''C:/q'', m_signatures = sigs,
        m_fileTypeSignatures = [], m_heuristicRules = [], m_quarantineEntries = []\<rparr>"

definition ex_sys :: "(path \<times> fs_file) list \<Rightarrow> sys" where
  "ex_sys fs = \<lparr>files = map_of fs, now = 1700000000, move_permitted = (\<lambda>a b. True),
        metadata_dat = [], metadata_writable = True, directory_entries = (\<lambda>d. []),
        can_create = (\<lambda>p. True), log = []\<rparr>"

definition ex_big :: sys where
  "ex_big = ex_sys
     [(''exact.bin'', \<lparr>is_regular_file = True, bytes = replicate 104857600 (CHR ''M''), can_open = True\<rparr>),
      (''over.bin'', \<lparr>is_regular_file = True, bytes = replicate 104857601 (CHR ''M''), can_open = True\<rparr>),
      (''empty.bin'', \<lparr>is_regular_file = True, bytes = [], can_open = True\<rparr>)]"

definition sig_M :: VirusSignature where
  "sig_M = \<lparr>name = ''Test.M'', signature = ''M'', severity = 9, offset = 0\<rparr>"

definition ex_evil :: "bool \<Rightarrow> sys" where
  "ex_evil permitted = (ex_sys
     [(''C:/in/evil.exe'', \<lparr>is_regular_file = True, bytes = ''x.locked'', can_open = True\<rparr>)])
     \<lparr>move_permitted := (\<lambda>a b. permitted)\<rparr>"

definition ex_monitor :: FileMonitor where
  "ex_monitor = \<lparr>fm_logger = True, m_running = True, m_realTimeProtectionEnabled = True,
        m_maxThreads = 4, m_watchedPaths = [], m_scanQueue = [], m_scanDelayMs = 100\<rparr>"

definition rq :: "string \<Rightarrow> nat \<Rightarrow> nat \<Rightarrow> ScanRequest" where
  "rq p pr t = \<lparr>filePath = p, priority = word_of_nat pr, timestamp = t\<rparr>"

text \<open>Four requests of priority 10, pushed at times 1, 2, 3 and 4.\<close>

definition ex_queue :: "ScanRequest list" where
  "ex_queue = pq_push operator_less (pq_push operator_less (pq_push operator_less
       (pq_push operator_less [] (rq ''a.exe'' 10 1)) (rq ''b.exe'' 10 2)) (rq ''c.exe'' 10 3))
       (rq ''d.exe'' 10 4)"

text \<open>Three requests of priorities 1, 10 and 5, pushed in this order.\<close>

definition ex_mixed :: "ScanRequest list" where
  "ex_mixed = pq_push operator_less (pq_push operator_less
       (pq_push operator_less [] (rq ''a.txt2'' 1 1)) (rq ''b.exe'' 10 2)) (rq ''c.doc'' 5 3)"

text \<open>Two events for one path: the file is created, then modified.\<close>

definition ex_first_event :: "FileMonitor \<times> sys" where
  "ex_first_event =
     ProcessFileEvent ex_externals ex_monitor (ex_sys []) ''C:/in/evil.exe'' FILE_ACTION_ADDED"

definition ex_second_event :: "FileMonitor \<times> sys" where
  "ex_second_event =
     ProcessFileEvent ex_externals (fst ex_first_event) ((snd ex_first_event)\<lparr>now := 1700000001\<rparr>)
       ''C:/in/evil.exe'' FILE_ACTION_MODIFIED"

definition ex_scanner :: Scanner where
  "ex_scanner = \<lparr>sc_logger = True,
       m_options = \<lparr>scanArchives = False, deepScan = False, heuristicAnalysis = True,
                    followSymlinks = False, maxFileSize = 100 * 1024 * 1024,
                    exclusions = [''C:'' @ [CHR 0x5C] @ ''Windows'' @ [CHR 0x5C] @ ''WinSxS'',
                                  ''C:'' @ [CHR 0x5C] @ ''pagefile.sys''],
                    extensions = []\<rparr>,
       m_statistics = \<lparr>totalFiles = 0, scannedFiles = 0, skippedFiles = 0, threatsFound = 0,
                       totalBytes = 0, scannedBytes = 0, progressPercent = 0, startTime = 0,
                       endTime = 0\<rparr>,
       m_isScanning = False, m_cancelRequested = False, m_progressCallback = False,
       m_threatCallback = False\<rparr>"

text \<open>
  A ZIP local file header, the file name \<open>a\<close> and the five bytes of the raw Deflate
  stream of the text \<open>aaaaa\<close>: compressed and uncompressed size are both 5.
\<close>

definition ex_zip :: string where
  "ex_zip =
     [CHR 0x50, CHR 0x4B, CHR 0x03, CHR 0x04, CHR 0x14, CHR 0x00, CHR 0x00, CHR 0x00,
      CHR 0x08, CHR 0x00, CHR 0x00, CHR 0x00, CHR 0x21, CHR 0x58, CHR 0xB9, CHR 0x93,
      CHR 0xAC, CHR 0xEE, CHR 0x05, CHR 0x00, CHR 0x00, CHR 0x00, CHR 0x05, CHR 0x00,
      CHR 0x00, CHR 0x00, CHR 0x01, CHR 0x00, CHR 0x00, CHR 0x00, CHR 0x61,
      CHR 0x4B, CHR 0x4C, CHR 0x04, CHR 0x02, CHR 0x00]"

definition ex_zip_entry :: ArchiveEntry where
  "ex_zip_entry = \<lparr>entry_name = ''a'', compressedSize = 5, uncompressedSize = 5,
       crc32 = 0xEEAC93B9, encrypted = False, isDirectory = False, compressionMethod = 8,
       localHeaderOffset = 0\<rparr>"

definition ex_archive_scanner :: ArchiveScanner where
  "ex_archive_scanner = \<lparr>as_initialized = True, m_maxNestingLevel = 5,
       m_maxExtractedSize = 100 * 1024 * 1024, m_tempDirectory = ''C:/t/''\<rparr>"

definition ex_zip_sys :: sys where
  "ex_zip_sys = ex_sys [(''C:/in/a.zip'', \<lparr>is_regular_file = True, bytes = ex_zip, can_open = True\<rparr>)]"

section \<open>Properties\<close>

subsection \<open>Signature pass\<close>

lemma std_search_sublist:
  "pat \<noteq> [] \<Longrightarrow> (std_search data pat = None) = (\<not> sublist pat data)"
  by (induction data) (auto simp: sublist_Cons_right)

lemma ScanWithSignatures_skips_empty:
  "ScanWithSignatures sigs data threat =
     ScanWithSignatures (filter (\<lambda>sg. signature sg \<noteq> []) sigs) data threat"
  by (induction sigs) auto

text \<open>
  Claim C1.  On a signature list whose patterns are non-empty (the invariant of the data
  model), the signature pass returns the first signature of the list, in iteration
  order, that matches the buffer, and nothing after it is looked at: a fixed offset
  matches exactly when offset + pattern length is at most the buffer length and the
  bytes at that position are the pattern, offset "anywhere" exactly when the pattern
  occurs as a contiguous part of the buffer; the verdict carries that signature's name
  and severity.
\<close>

theorem ScanWithSignatures_first_match:
  assumes "\<forall>sg \<in> set sigs. signature sg \<noteq> []"
  shows "ScanWithSignatures sigs data threat = spec_signature_pass sigs data threat"
  using assms
  by (induction sigs)
     (auto simp: spec_signature_pass_def spec_signature_matches_def std_equal_def
                 std_search_sublist)

theorem ScanWithSignatures_first_match_witness:
  "[] \<notin> set (map signature default_signatures)
   \<and> ScanWithSignatures default_signatures ''run powershell now'' ex_threat
      = (True, ex_threat\<lparr>threat_name := ''Script.Suspicious.PowerShell'', threat_level := 5\<rparr>)"
proof -
  have h: "\<forall>sg \<in> set default_signatures. signature sg \<noteq> []"
    by (simp add: default_signatures_def)
  have "spec_signature_pass default_signatures ''run powershell now'' ex_threat
      = (True, ex_threat\<lparr>threat_name := ''Script.Suspicious.PowerShell'', threat_level := 5\<rparr>)"
    by (simp add: spec_signature_pass_def spec_signature_matches_def default_signatures_def
                  sublist_Cons_right)
  moreover have "[] \<notin> set (map signature default_signatures)"
    by (simp add: default_signatures_def)
  ultimately show ?thesis
    using ScanWithSignatures_first_match [OF h] by simp
qed

subsection \<open>Heuristic pass\<close>

lemma string_find_sublist: "(string_find hay pat = None) = (\<not> sublist pat hay)"
  by (induction hay) (auto simp: sublist_Cons_right)

lemma find_suspicious_ex: "find_suspicious hay ws = list_ex (\<lambda>w. sublist w hay) ws"
  by (induction ws) (auto simp: string_find_sublist)

lemma ContainsSuspiciousStrings_sublist:
  "ContainsSuspiciousStrings data = list_ex (\<lambda>w. sublist w (map tolower data)) suspiciousStrings"
  by (simp add: ContainsSuspiciousStrings_def find_suspicious_ex)

lemma ScanWithHeuristics_rules:
  "verdict (ScanWithHeuristics x data p t) =
     spec_heuristic_rules (map tolower (path_extension x p)) (length data) (CalculateEntropy x data) data"
  by (simp add: ScanWithHeuristics_def spec_heuristic_rules_def verdict_def Let_def
                ContainsSuspiciousStrings_sublist)

lemma ScanWithSignatures_not_found:
  "\<not> fst (ScanWithSignatures sigs data t) \<Longrightarrow> snd (ScanWithSignatures sigs data t) = t"
  by (induction sigs) (auto split: if_splits)

text \<open>
  Claim C2.  For a file that is scanned (engine initialised, regular file that opens,
  size between 1 and MAX_SCAN_SIZE), the heuristic pass decides the verdict only if the
  signature pass found nothing and heuristics are enabled, and then the first rule that
  matches wins, in the declared order: tiny-executable (extension .exe, .dll, .scr or
  .com and size below 1024, severity 6), high-entropy (entropy above 7.5, severity 7),
  suspicious-strings (a word of the fixed list occurs in the lower-cased bytes,
  severity 5).
\<close>

theorem ScanFile_heuristic_pass:
  assumes "m_initialized e" and "files s p = Some f" and "is_regular_file f" and "can_open f"
      and "bytes f \<noteq> []" and "length (bytes f) \<le> MAX_SCAN_SIZE"
  shows "file_verdict (ScanFile x e s p t) =
     (if fst (ScanWithSignatures (m_signatures e) (bytes f) t)
      then verdict (ScanWithSignatures (m_signatures e) (bytes f) t)
      else if \<not> m_heuristicsEnabled e then Clean
      else spec_heuristic_rules (map tolower (path_extension x p)) (length (bytes f))
             (CalculateEntropy x (bytes f)) (bytes f))"
proof -
  obtain found t1 where sg: "ScanWithSignatures (m_signatures e) (bytes f) t = (found, t1)"
    by (cases "ScanWithSignatures (m_signatures e) (bytes f) t")
  obtain hfound t2 where hr: "ScanWithHeuristics x (bytes f) p t1 = (hfound, t2)"
    by (cases "ScanWithHeuristics x (bytes f) p t1")
  have v: "verdict (hfound, t2) = spec_heuristic_rules (map tolower (path_extension x p))
             (length (bytes f)) (CalculateEntropy x (bytes f)) (bytes f)"
    using ScanWithHeuristics_rules [of x "bytes f" p t1] hr by simp
  from assms sg hr v show ?thesis
    by (auto simp: ScanFile_def file_verdict_def verdict_def FileExists_def GetFileSize_def Let_def)
qed

theorem ScanFile_heuristic_pass_witness:
  "file_verdict (ScanFile ex_externals (ex_engine default_signatures)
      (ex_sys [(''a.EXE'', \<lparr>is_regular_file = True, bytes = ''a Trojan'', can_open = True\<rparr>)])
      ''a.EXE'' ex_threat)
   = Threat ''Heuristic.Suspicious.TinyExecutable'' 6"
  by (subst ScanFile_heuristic_pass
        [where f = "\<lparr>is_regular_file = True, bytes = ''a Trojan'', can_open = True\<rparr>"])
     (simp_all add: MAX_SCAN_SIZE_def default_signatures_def std_equal_def
        spec_heuristic_rules_def tolower_def ex_externals_def ex_engine_def ex_sys_def)

subsection \<open>Size limits of ScanFile\<close>

text \<open>
  Claim C3.  A missing file and a file of size 0 give the verdict Clean; a file whose
  size is strictly greater than MAX_SCAN_SIZE (100 MiB) is skipped: the verdict is
  Clean and the out-parameter untouched, whatever the bytes and the signatures are.
  A file of exactly MAX_SCAN_SIZE bytes is scanned: the verdict is that of the
  signature and heuristic passes on its bytes.  A file one byte larger is skipped.
\<close>

theorem ScanFile_size_limits:
  "(\<not> FileExists s p \<longrightarrow> \<not> fst (ScanFile x e s p t))
   \<and> (GetFileSize s p = 0 \<longrightarrow> \<not> fst (ScanFile x e s p t))
   \<and> MAX_SCAN_SIZE = 104857600
   \<and> (GetFileSize s p > MAX_SCAN_SIZE \<longrightarrow>
        \<not> fst (ScanFile x e s p t) \<and> fst (snd (ScanFile x e s p t)) = t)
   \<and> (m_initialized e \<and> files s p = Some f \<and> is_regular_file f \<and> can_open f
        \<and> length (bytes f) = MAX_SCAN_SIZE \<longrightarrow>
        fst (ScanFile x e s p t) =
          (fst (ScanWithSignatures (m_signatures e) (bytes f) t)
           \<or> m_heuristicsEnabled e \<and> fst (ScanWithHeuristics x (bytes f) p t)))
   \<and> (files s p = Some f \<and> is_regular_file f \<and> length (bytes f) = MAX_SCAN_SIZE + 1 \<longrightarrow>
        \<not> fst (ScanFile x e s p t) \<and> fst (snd (ScanFile x e s p t)) = t)"
proof -
  have a: "\<not> FileExists s p \<longrightarrow> \<not> fst (ScanFile x e s p t)"
    by (simp add: ScanFile_def)
  have b: "GetFileSize s p = 0 \<longrightarrow> \<not> fst (ScanFile x e s p t)"
    by (simp add: ScanFile_def Let_def)
  have c: "MAX_SCAN_SIZE = 104857600"
    by (simp add: MAX_SCAN_SIZE_def)
  have d: "GetFileSize s p > MAX_SCAN_SIZE \<longrightarrow>
        \<not> fst (ScanFile x e s p t) \<and> fst (snd (ScanFile x e s p t)) = t"
    by (simp add: ScanFile_def Let_def)
  have e: "m_initialized e \<and> files s p = Some f \<and> is_regular_file f \<and> can_open f
        \<and> length (bytes f) = MAX_SCAN_SIZE \<longrightarrow>
        fst (ScanFile x e s p t) =
          (fst (ScanWithSignatures (m_signatures e) (bytes f) t)
           \<or> m_heuristicsEnabled e \<and> fst (ScanWithHeuristics x (bytes f) p t))"
  proof (intro impI, elim conjE)
    assume h: "m_initialized e" "files s p = Some f" "is_regular_file f" "can_open f"
       "length (bytes f) = MAX_SCAN_SIZE"
    obtain found t1 where sg: "ScanWithSignatures (m_signatures e) (bytes f) t = (found, t1)"
      by (cases "ScanWithSignatures (m_signatures e) (bytes f) t")
    have t1: "\<not> found \<Longrightarrow> t1 = t"
      using ScanWithSignatures_not_found [of "m_signatures e" "bytes f" t] sg by simp
    from h sg t1 show "fst (ScanFile x e s p t) =
          (fst (ScanWithSignatures (m_signatures e) (bytes f) t)
           \<or> m_heuristicsEnabled e \<and> fst (ScanWithHeuristics x (bytes f) p t))"
      by (auto simp: ScanFile_def FileExists_def GetFileSize_def Let_def MAX_SCAN_SIZE_def
               split: prod.splits)
  qed
  have f: "files s p = Some f \<and> is_regular_file f \<and> length (bytes f) = MAX_SCAN_SIZE + 1 \<longrightarrow>
        \<not> fst (ScanFile x e s p t) \<and> fst (snd (ScanFile x e s p t)) = t"
    by (simp add: ScanFile_def FileExists_def GetFileSize_def Let_def)
  from a b c d e f show ?thesis by blast
qed

theorem ScanFile_size_limits_witness:
  "\<not> FileExists ex_big ''missing.bin''
   \<and> \<not> fst (ScanFile ex_externals (ex_engine [sig_M]) ex_big ''missing.bin'' ex_threat)
   \<and> GetFileSize ex_big ''empty.bin'' = 0
   \<and> \<not> fst (ScanFile ex_externals (ex_engine [sig_M]) ex_big ''empty.bin'' ex_threat)
   \<and> GetFileSize ex_big ''exact.bin'' = MAX_SCAN_SIZE
   \<and> fst (ScanFile ex_externals (ex_engine [sig_M]) ex_big ''exact.bin'' ex_threat)
   \<and> GetFileSize ex_big ''over.bin'' = MAX_SCAN_SIZE + 1
   \<and> \<not> fst (ScanFile ex_externals (ex_engine [sig_M]) ex_big ''over.bin'' ex_threat)"
proof -
  have m: "\<not> FileExists ex_big ''missing.bin''"
    by (simp add: FileExists_def ex_big_def ex_sys_def)
  have z: "GetFileSize ex_big ''empty.bin'' = 0"
    by (simp add: GetFileSize_def ex_big_def ex_sys_def)
  have x: "m_initialized (ex_engine [sig_M])
      \<and> files ex_big ''exact.bin'' = Some \<lparr>is_regular_file = True, bytes = replicate 104857600 (CHR ''M''), can_open = True\<rparr>
      \<and> is_regular_file \<lparr>is_regular_file = True, bytes = replicate 104857600 (CHR ''M''), can_open = True\<rparr>
      \<and> can_open \<lparr>is_regular_file = True, bytes = replicate 104857600 (CHR ''M''), can_open = True\<rparr>
      \<and> length (bytes \<lparr>is_regular_file = True, bytes = replicate 104857600 (CHR ''M''), can_open = True\<rparr>) = MAX_SCAN_SIZE"
    by (simp add: ex_engine_def ex_big_def ex_sys_def MAX_SCAN_SIZE_def)
  have xs: "GetFileSize ex_big ''exact.bin'' = MAX_SCAN_SIZE"
    by (simp add: GetFileSize_def ex_big_def ex_sys_def MAX_SCAN_SIZE_def)
  have o: "GetFileSize ex_big ''over.bin'' = MAX_SCAN_SIZE + 1"
    by (simp add: GetFileSize_def ex_big_def ex_sys_def MAX_SCAN_SIZE_def)
  have sg: "fst (ScanWithSignatures (m_signatures (ex_engine [sig_M])) (replicate 104857600 (CHR ''M'')) ex_threat)"
    by (simp add: ex_engine_def sig_M_def std_equal_def)
  from m z x xs o sg
    ScanFile_size_limits [of ex_big "''missing.bin''" ex_externals "ex_engine [sig_M]" ex_threat]
    ScanFile_size_limits [of ex_big "''empty.bin''" ex_externals "ex_engine [sig_M]" ex_threat]
    ScanFile_size_limits [of ex_big "''exact.bin''" ex_externals "ex_engine [sig_M]" ex_threat
       "\<lparr>is_regular_file = True, bytes = replicate 104857600 (CHR ''M''), can_open = True\<rparr>"]
    ScanFile_size_limits [of ex_big "''over.bin''" ex_externals "ex_engine [sig_M]" ex_threat]
  show ?thesis by simp
qed

subsection \<open>The binary heap behind the scan queue\<close>

declare push_heap_by_index.simps [simp del] percolate_hole.simps [simp del]

lemma is_heap_iff:
  "is_heap key h \<longleftrightarrow> (\<forall>i. 0 < i \<and> i < length h \<longrightarrow> key (h ! i) \<le> key (h ! ((i - 1) div 2)))"
  by (auto simp: is_heap_def list_all_iff)

lemma length_push_heap_by_index [simp]:
  "length (push_heap_by_index cmp h hole tp v) = length h"
  by (induction cmp h hole tp v rule: push_heap_by_index.induct)
     (subst push_heap_by_index.simps, simp)

lemma push_heap_by_index_heap:
  assumes "cmp = (\<lambda>a b. key a < key b)" and "tp = 0" and "hole < length h"
    and "heap_except key h hole"
    and "\<forall>i. 0 < i \<and> i < length h \<and> (i - 1) div 2 = hole \<longrightarrow> key (h ! i) \<le> key v"
  shows "is_heap key (push_heap_by_index cmp h hole tp v)"
  using assms
proof (induction cmp h hole tp v rule: push_heap_by_index.induct)
  case (1 cmp h hole tp v)
  let ?p = "(hole - 1) div 2"
  show ?case
  proof (cases "tp < hole \<and> cmp (h ! ?p) v")
    case True
    then have pos: "0 < hole" and lt: "key (h ! ?p) < key v"
      using "1.prems" by auto
    have plt: "?p < hole" using pos by auto
    let ?h = "h[hole := h ! ?p]"
    have he: "heap_except key ?h ?p"
      unfolding heap_except_def
    proof (intro conjI allI impI)
      fix i assume a: "0 < i \<and> i < length ?h \<and> i \<noteq> ?p \<and> (i - 1) div 2 \<noteq> ?p"
      then have ih: "i \<noteq> hole" by auto
      show "key (?h ! i) \<le> key (?h ! ((i - 1) div 2))"
      proof (cases "(i - 1) div 2 = hole")
        case True
        with a pos "1.prems"(4) have "key (h ! i) \<le> key (h ! ?p)"
          by (auto simp: heap_except_def)
        with True ih "1.prems"(3) show ?thesis by simp
      next
        case False
        with a ih "1.prems"(4) have "key (h ! i) \<le> key (h ! ((i - 1) div 2))"
          by (auto simp: heap_except_def)
        with False ih show ?thesis by simp
      qed
    next
      fix i assume a: "0 < i \<and> i < length ?h \<and> (i - 1) div 2 = ?p \<and> 0 < ?p"
      have pp: "key (h ! ?p) \<le> key (h ! ((?p - 1) div 2))"
        using a plt "1.prems"(3,4) by (auto simp: heap_except_def)
      show "key (?h ! i) \<le> key (?h ! ((?p - 1) div 2))"
      proof (cases "i = hole")
        case True
        with pp a plt "1.prems"(3) show ?thesis by auto
      next
        case False
        with a plt "1.prems"(4) have "key (h ! i) \<le> key (h ! ?p)"
          by (auto simp: heap_except_def)
        with pp False a plt show ?thesis by auto
      qed
    qed
    have ch: "\<forall>i. 0 < i \<and> i < length ?h \<and> (i - 1) div 2 = ?p \<longrightarrow> key (?h ! i) \<le> key v"
    proof (intro allI impI)
      fix i assume a: "0 < i \<and> i < length ?h \<and> (i - 1) div 2 = ?p"
      show "key (?h ! i) \<le> key v"
      proof (cases "i = hole")
        case True
        with lt "1.prems"(3) show ?thesis by simp
      next
        case False
        with a plt "1.prems"(4) have "key (h ! i) \<le> key (h ! ?p)"
          by (auto simp: heap_except_def)
        with lt False show ?thesis by simp
      qed
    qed
    have "is_heap key (push_heap_by_index cmp ?h ?p tp v)"
      using "1.IH" [OF True "1.prems"(1,2) _ he ch] plt "1.prems"(3) by simp
    with True show ?thesis
      by (subst push_heap_by_index.simps) simp
  next
    case False
    have res: "push_heap_by_index cmp h hole tp v = h[hole := v]"
      by (subst push_heap_by_index.simps) (simp only: False if_False)
    have stop: "0 < hole \<Longrightarrow> key v \<le> key (h ! ?p)"
      using False "1.prems"(1,2) by auto
    show ?thesis
      unfolding res is_heap_iff
    proof (intro allI impI)
      fix i assume a: "0 < i \<and> i < length (h[hole := v])"
      show "key (h[hole := v] ! i) \<le> key (h[hole := v] ! ((i - 1) div 2))"
      proof (cases "i = hole")
        case True
        have "(hole - 1) div 2 \<noteq> hole" using a True by auto
        with True a stop "1.prems"(3) show ?thesis by simp
      next
        case ne: False
        show ?thesis
        proof (cases "(i - 1) div 2 = hole")
          case True
          with a ne "1.prems"(5) have "key (h ! i) \<le> key v" by auto
          with True ne "1.prems"(3) show ?thesis by simp
        next
          case False
          with a ne "1.prems"(4) have "key (h ! i) \<le> key (h ! ((i - 1) div 2))"
            by (auto simp: heap_except_def)
          with False ne show ?thesis by simp
        qed
      qed
    qed
  qed
qed


lemma mset_push_heap_by_index:
  "hole < length h \<Longrightarrow> mset (push_heap_by_index cmp h hole tp v) = mset (h[hole := v])"
proof (induction cmp h hole tp v rule: push_heap_by_index.induct)
  case (1 cmp h hole tp v)
  let ?p = "(hole - 1) div 2"
  show ?case
  proof (cases "tp < hole \<and> cmp (h ! ?p) v")
    case True
    then have plt: "?p < hole" by auto
    have "mset (push_heap_by_index cmp (h[hole := h ! ?p]) ?p tp v)
            = mset (h[hole := h ! ?p, ?p := v])"
      using "1.IH" [OF True] plt "1.prems" by simp
    also have "\<dots> = mset (h[hole := v])"
      using plt "1.prems" by (simp add: mset_update nth_list_update)
    finally show ?thesis
      using True by (subst push_heap_by_index.simps) simp
  next
    case False
    show ?thesis
      by (subst push_heap_by_index.simps) (simp only: False if_False)
  qed
qed

lemma push_heap_by_index_append:
  "hole < length h \<Longrightarrow>
     push_heap_by_index cmp (h @ z) hole tp v = push_heap_by_index cmp h hole tp v @ z"
proof (induction cmp h hole tp v rule: push_heap_by_index.induct)
  case (1 cmp h hole tp v)
  let ?p = "(hole - 1) div 2"
  have plen: "?p < length h" using "1.prems" by auto
  show ?case
  proof (cases "tp < hole \<and> cmp (h ! ?p) v")
    case True
    then have plt: "?p < hole" by auto
    have c: "tp < hole \<and> cmp ((h @ z) ! ?p) v"
      using True plen by (simp add: nth_append)
    have "push_heap_by_index cmp (h @ z) hole tp v
            = push_heap_by_index cmp ((h @ z)[hole := (h @ z) ! ?p]) ?p tp v"
      by (subst push_heap_by_index.simps) (simp only: c simp_thms if_True)
    also have "(h @ z)[hole := (h @ z) ! ?p] = h[hole := h ! ?p] @ z"
      using plen "1.prems" by (simp add: nth_append list_update_append)
    also have "push_heap_by_index cmp (h[hole := h ! ?p] @ z) ?p tp v
            = push_heap_by_index cmp (h[hole := h ! ?p]) ?p tp v @ z"
      using "1.IH" [OF True] plen by simp
    also have "push_heap_by_index cmp (h[hole := h ! ?p]) ?p tp v
            = push_heap_by_index cmp h hole tp v"
      by (subst (2) push_heap_by_index.simps) (simp only: True simp_thms if_True)
    finally show ?thesis .
  next
    case False
    have c: "\<not> (tp < hole \<and> cmp ((h @ z) ! ?p) v)"
      using False plen by (simp add: nth_append)
    have "push_heap_by_index cmp (h @ z) hole tp v = (h @ z)[hole := v]"
      by (subst push_heap_by_index.simps) (simp only: c if_False)
    moreover have "push_heap_by_index cmp h hole tp v = h[hole := v]"
      by (subst push_heap_by_index.simps) (simp only: False if_False)
    ultimately show ?thesis
      using "1.prems" by (simp add: list_update_append)
  qed
qed


lemma parent_eq_iff:
  "0 < (i::nat) \<Longrightarrow> ((i - 1) div 2 = k) = (i = 2 * k + 1 \<or> i = 2 * k + 2)"
  by arith

lemma mset_move_hole:
  "i < length h \<Longrightarrow> j < length h \<Longrightarrow> i \<noteq> j \<Longrightarrow>
     mset (h[i := h ! j, j := v]) = mset (h[i := v])"
  by (simp add: mset_update nth_list_update)

lemma percolate_hole_stop:
  "\<not> idx < (bottom - 1) div 2 \<Longrightarrow> percolate_hole cmp h idx bottom = (h, idx)"
  by (subst percolate_hole.simps) (simp only: if_False)

lemma percolate_hole_step:
  "idx < (bottom - 1) div 2 \<Longrightarrow>
     percolate_hole cmp h idx bottom =
       percolate_hole cmp
         (h[idx := h ! (if cmp (h ! (2 * idx + 2)) (h ! (2 * idx + 2 - 1)) then 2 * idx + 2 - 1 else 2 * idx + 2)])
         (if cmp (h ! (2 * idx + 2)) (h ! (2 * idx + 2 - 1)) then 2 * idx + 2 - 1 else 2 * idx + 2) bottom"
  by (subst percolate_hole.simps) (simp only: if_True Let_def)

lemma percolate_hole_inv:
  assumes "cmp = (\<lambda>a b. key a < key b)" and "bottom = length h" and "idx < length h"
    and "heap_except key h idx"
  shows "length (fst (percolate_hole cmp h idx bottom)) = length h
       \<and> snd (percolate_hole cmp h idx bottom) < length h
       \<and> \<not> snd (percolate_hole cmp h idx bottom) < (bottom - 1) div 2
       \<and> heap_except key (fst (percolate_hole cmp h idx bottom)) (snd (percolate_hole cmp h idx bottom))
       \<and> mset ((fst (percolate_hole cmp h idx bottom))[snd (percolate_hole cmp h idx bottom) := v])
            = mset (h[idx := v])"
  using assms
proof (induction cmp h idx bottom rule: percolate_hole.induct)
  case (1 cmp h idx bottom)
  show ?case
  proof (cases "idx < (bottom - 1) div 2")
    case False
    with "1.prems" show ?thesis by (simp add: percolate_hole_stop)
  next
    case True
    define r where "r = 2 * idx + 2"
    define c where "c = (if cmp (h ! r) (h ! (r - 1)) then r - 1 else r)"
    let ?h = "h[idx := h ! c]"
    have rlt: "r < length h" using True "1.prems"(2) unfolding r_def by arith
    have c_cases: "c = 2 * idx + 1 \<or> c = 2 * idx + 2" by (auto simp: c_def r_def)
    have clt: "c < length h" using rlt c_cases unfolding r_def by auto
    have cgt: "idx < c" using c_cases by auto
    have cpar: "(c - 1) div 2 = idx" using c_cases by auto
    have sib: "key (h ! i) \<le> key (h ! c)" if "0 < i" and "(i - 1) div 2 = idx" for i
    proof -
      from that have "i = 2 * idx + 1 \<or> i = 2 * idx + 2"
        using parent_eq_iff [of i idx] by blast
      then show ?thesis
        using "1.prems"(1) by (auto simp: c_def r_def)
    qed
    have old1: "key (h ! i) \<le> key (h ! ((i - 1) div 2))"
      if "0 < i" "i < length h" "i \<noteq> idx" "(i - 1) div 2 \<noteq> idx" for i
      using "1.prems"(4) that unfolding heap_except_def by blast
    have old2: "key (h ! i) \<le> key (h ! ((idx - 1) div 2))"
      if "0 < i" "i < length h" "(i - 1) div 2 = idx" "0 < idx" for i
      using "1.prems"(4) that unfolding heap_except_def by blast
    have he: "heap_except key ?h c"
      unfolding heap_except_def
    proof (intro conjI allI impI)
      fix i assume a: "0 < i \<and> i < length ?h \<and> i \<noteq> c \<and> (i - 1) div 2 \<noteq> c"
      show "key (?h ! i) \<le> key (?h ! ((i - 1) div 2))"
      proof (cases "i = idx")
        case True
        then have pos: "0 < idx" using a by simp
        have "key (h ! c) \<le> key (h ! ((idx - 1) div 2))"
          using old2 [of c] cgt clt cpar pos by simp
        moreover have "(idx - 1) div 2 \<noteq> idx" using pos by arith
        ultimately show ?thesis using True "1.prems"(3) by simp
      next
        case ne: False
        show ?thesis
        proof (cases "(i - 1) div 2 = idx")
          case True
          with a sib [of i] have "key (h ! i) \<le> key (h ! c)" by blast
          with True ne "1.prems"(3) show ?thesis by simp
        next
          case False
          with a ne old1 [of i] have "key (h ! i) \<le> key (h ! ((i - 1) div 2))" by simp
          with False ne show ?thesis by simp
        qed
      qed
    next
      fix i assume a: "0 < i \<and> i < length ?h \<and> (i - 1) div 2 = c \<and> 0 < c"
      have "(i - 1) div 2 \<le> i" by arith
      with a cgt have ine: "i \<noteq> idx" by linarith
      have "(i - 1) div 2 \<noteq> idx" using a cgt by simp
      with a ine old1 [of i] have "key (h ! i) \<le> key (h ! c)" by simp
      moreover have "?h ! ((c - 1) div 2) = h ! c"
        using cpar "1.prems"(3) by simp
      moreover have "?h ! i = h ! i" using ine by simp
      ultimately show "key (?h ! i) \<le> key (?h ! ((c - 1) div 2))" by simp
    qed
    have ms: "mset (?h[c := v]) = mset (h[idx := v])"
      using mset_move_hole [of idx h c v] "1.prems"(3) clt cgt by simp
    have IH: "length (fst (percolate_hole cmp ?h c bottom)) = length ?h
       \<and> snd (percolate_hole cmp ?h c bottom) < length ?h
       \<and> \<not> snd (percolate_hole cmp ?h c bottom) < (bottom - 1) div 2
       \<and> heap_except key (fst (percolate_hole cmp ?h c bottom)) (snd (percolate_hole cmp ?h c bottom))
       \<and> mset ((fst (percolate_hole cmp ?h c bottom))[snd (percolate_hole cmp ?h c bottom) := v])
            = mset (?h[c := v])"
      using "1.IH" [OF True r_def c_def "1.prems"(1) _ _ he] "1.prems"(2) clt by simp
    have st: "percolate_hole cmp h idx bottom = percolate_hole cmp ?h c bottom"
      using percolate_hole_step [OF True, of cmp h] unfolding c_def r_def .
    show ?thesis
      unfolding st using IH ms by simp
  qed
qed


lemma percolate_hole_append:
  "bottom \<le> length h \<Longrightarrow>
     percolate_hole cmp (h @ z) idx bottom =
       (fst (percolate_hole cmp h idx bottom) @ z, snd (percolate_hole cmp h idx bottom))"
proof (induction cmp h idx bottom rule: percolate_hole.induct)
  case (1 cmp h idx bottom)
  show ?case
  proof (cases "idx < (bottom - 1) div 2")
    case False
    then show ?thesis by (simp add: percolate_hole_stop)
  next
    case True
    define r where "r = 2 * idx + 2"
    define c where "c = (if cmp (h ! r) (h ! (r - 1)) then r - 1 else r)"
    have rlt: "r < length h" using True "1.prems" unfolding r_def by arith
    have clt: "c < length h" using rlt by (auto simp: c_def)
    have ilt: "idx < length h" using rlt unfolding r_def by arith
    have c': "c = (if cmp ((h @ z) ! r) ((h @ z) ! (r - 1)) then r - 1 else r)"
      using rlt by (auto simp: c_def nth_append)
    have "percolate_hole cmp (h @ z) idx bottom
            = percolate_hole cmp ((h @ z)[idx := (h @ z) ! c]) c bottom"
      using percolate_hole_step [OF True, of cmp "h @ z"] unfolding c' r_def .
    also have "(h @ z)[idx := (h @ z) ! c] = h[idx := h ! c] @ z"
      using clt ilt by (simp add: nth_append list_update_append)
    also have "percolate_hole cmp (h[idx := h ! c] @ z) c bottom
            = (fst (percolate_hole cmp (h[idx := h ! c]) c bottom) @ z,
               snd (percolate_hole cmp (h[idx := h ! c]) c bottom))"
      using "1.IH" [OF True r_def c_def] "1.prems" by simp
    also have "percolate_hole cmp (h[idx := h ! c]) c bottom = percolate_hole cmp h idx bottom"
      using percolate_hole_step [OF True, of cmp h] unfolding c_def r_def by simp
    finally show ?thesis .
  qed
qed

lemma pop_heap_hole_by_index_heap:
  assumes cmp: "cmp = (\<lambda>a b. key a < key b)" and bottom: "bottom = length h" and ne: "h \<noteq> []"
    and he: "heap_except key h 0"
  shows "is_heap key (pop_heap_hole_by_index cmp h 0 bottom v)
       \<and> mset (pop_heap_hole_by_index cmp h 0 bottom v) = mset (h[0 := v])"
proof -
  define h1 where "h1 = fst (percolate_hole cmp h 0 bottom)"
  define idx where "idx = snd (percolate_hole cmp h 0 bottom)"
  have pos: "0 < length h" using ne by simp
  from percolate_hole_inv [OF cmp bottom pos he, of v]
  have len: "length h1 = length h" and ilt: "idx < length h"
    and stop: "\<not> idx < (bottom - 1) div 2" and he1: "heap_except key h1 idx"
    and ms1: "mset (h1[idx := v]) = mset (h[0 := v])"
    unfolding h1_def idx_def by simp_all
  have old1: "key (h1 ! i) \<le> key (h1 ! ((i - 1) div 2))"
    if "0 < i" "i < length h1" "i \<noteq> idx" "(i - 1) div 2 \<noteq> idx" for i
    using he1 that unfolding heap_except_def by blast
  have old2: "key (h1 ! i) \<le> key (h1 ! ((idx - 1) div 2))"
    if "0 < i" "i < length h1" "(i - 1) div 2 = idx" "0 < idx" for i
    using he1 that unfolding heap_except_def by blast
  have pr: "percolate_hole cmp h 0 bottom = (h1, idx)"
    by (simp add: h1_def idx_def)
  show ?thesis
  proof (cases "idx = (bottom - 1) div 2 \<and> bottom mod 2 = 0")
    case True
    define h2 where "h2 = h1[idx := h1 ! (bottom - 1)]"
    have b2: "2 \<le> bottom" using True pos bottom by arith
    have ch: "2 * idx + 1 = bottom - 1" using True b2 by arith
    have ine: "idx \<noteq> bottom - 1" using ch by arith
    have res: "pop_heap_hole_by_index cmp h 0 bottom v = push_heap_by_index cmp h2 (bottom - 1) 0 v"
      using True by (simp add: pop_heap_hole_by_index_def pr h2_def)
    have he2: "heap_except key h2 (bottom - 1)"
      unfolding heap_except_def
    proof (intro conjI allI impI)
      fix i assume a: "0 < i \<and> i < length h2 \<and> i \<noteq> bottom - 1 \<and> (i - 1) div 2 \<noteq> bottom - 1"
      then have ilen: "i < length h1" by (simp add: h2_def)
      show "key (h2 ! i) \<le> key (h2 ! ((i - 1) div 2))"
      proof (cases "i = idx")
        case eq: True
        then have ip: "0 < idx" using a by simp
        have "key (h1 ! (bottom - 1)) \<le> key (h1 ! ((idx - 1) div 2))"
          using old2 [of "bottom - 1"] ch ip b2 len bottom by simp
        moreover have "(idx - 1) div 2 \<noteq> idx" using ip by arith
        ultimately show ?thesis using eq ilt len by (simp add: h2_def)
      next
        case neq: False
        have "(i - 1) div 2 \<noteq> idx"
        proof
          assume "(i - 1) div 2 = idx"
          with a have "i = 2 * idx + 1 \<or> i = 2 * idx + 2"
            using parent_eq_iff [of i idx] by blast
          with a ch ilen len bottom show False by arith
        qed
        with a neq ilen old1 [of i] show ?thesis by (simp add: h2_def)
      qed
    next
      fix i assume a: "0 < i \<and> i < length h2 \<and> (i - 1) div 2 = bottom - 1 \<and> 0 < bottom - 1"
      then have "i < bottom" using len bottom by (simp add: h2_def)
      with a have False by arith
      then show "key (h2 ! i) \<le> key (h2 ! ((bottom - 1 - 1) div 2))" ..
    qed
    have leaf: "\<forall>i. 0 < i \<and> i < length h2 \<and> (i - 1) div 2 = bottom - 1 \<longrightarrow> key (h2 ! i) \<le> key v"
    proof (intro allI impI)
      fix i assume a: "0 < i \<and> i < length h2 \<and> (i - 1) div 2 = bottom - 1"
      then have "i < bottom" using len bottom by (simp add: h2_def)
      with a b2 have False by arith
      then show "key (h2 ! i) \<le> key v" ..
    qed
    have hl: "bottom - 1 < length h2" using len bottom pos by (simp add: h2_def)
    have "is_heap key (push_heap_by_index cmp h2 (bottom - 1) 0 v)"
      using push_heap_by_index_heap [OF cmp refl hl he2 leaf] .
    moreover have "mset (push_heap_by_index cmp h2 (bottom - 1) 0 v) = mset (h[0 := v])"
      using mset_push_heap_by_index [OF hl, of cmp 0 v]
        mset_move_hole [of idx h1 "bottom - 1" v] ilt len ine hl ms1
      by (simp add: h2_def)
    ultimately show ?thesis by (simp add: res)
  next
    case False
    have res: "pop_heap_hole_by_index cmp h 0 bottom v = push_heap_by_index cmp h1 idx 0 v"
      using False by (auto simp: pop_heap_hole_by_index_def pr)
    have leaf: "\<forall>i. 0 < i \<and> i < length h1 \<and> (i - 1) div 2 = idx \<longrightarrow> key (h1 ! i) \<le> key v"
    proof (intro allI impI)
      fix i assume a: "0 < i \<and> i < length h1 \<and> (i - 1) div 2 = idx"
      then have "i = 2 * idx + 1 \<or> i = 2 * idx + 2"
        using parent_eq_iff [of i idx] by blast
      with a False stop len bottom have False by arith
      then show "key (h1 ! i) \<le> key v" ..
    qed
    have hl: "idx < length h1" using ilt len by simp
    have "is_heap key (push_heap_by_index cmp h1 idx 0 v)"
      using push_heap_by_index_heap [OF cmp refl hl he1 leaf] .
    moreover have "mset (push_heap_by_index cmp h1 idx 0 v) = mset (h[0 := v])"
      using mset_push_heap_by_index [OF hl, of cmp 0 v] ms1 by simp
    ultimately show ?thesis by (simp add: res)
  qed
qed


lemma percolate_hole_bounds:
  "idx < bottom \<Longrightarrow> bottom \<le> length h \<Longrightarrow>
     snd (percolate_hole cmp h idx bottom) < bottom
     \<and> length (fst (percolate_hole cmp h idx bottom)) = length h"
proof (induction cmp h idx bottom rule: percolate_hole.induct)
  case (1 cmp h idx bottom)
  show ?case
  proof (cases "idx < (bottom - 1) div 2")
    case False
    with "1.prems" show ?thesis by (simp add: percolate_hole_stop)
  next
    case True
    define r where "r = 2 * idx + 2"
    define c where "c = (if cmp (h ! r) (h ! (r - 1)) then r - 1 else r)"
    have clt: "c < bottom" using True unfolding c_def r_def by auto
    have st: "percolate_hole cmp h idx bottom = percolate_hole cmp (h[idx := h ! c]) c bottom"
      using percolate_hole_step [OF True, of cmp h] unfolding c_def r_def .
    show ?thesis
      unfolding st using "1.IH" [OF True r_def c_def clt] "1.prems" by simp
  qed
qed

lemma pop_heap_hole_by_index_append:
  assumes "h \<noteq> []" and "bottom = length h"
  shows "pop_heap_hole_by_index cmp (h @ z) 0 bottom v = pop_heap_hole_by_index cmp h 0 bottom v @ z"
proof -
  define h1 where "h1 = fst (percolate_hole cmp h 0 bottom)"
  define idx where "idx = snd (percolate_hole cmp h 0 bottom)"
  have pos: "0 < bottom" using assms by simp
  have b: "idx < bottom" "length h1 = length h"
    using percolate_hole_bounds [of 0 bottom h cmp] pos assms(2) by (simp_all add: h1_def idx_def)
  have pr: "percolate_hole cmp h 0 bottom = (h1, idx)"
    by (simp add: h1_def idx_def)
  have pa: "percolate_hole cmp (h @ z) 0 bottom = (h1 @ z, idx)"
    using percolate_hole_append [of bottom h cmp z 0] assms(2) by (simp add: h1_def idx_def)
  show ?thesis
  proof (cases "idx = (bottom - 1) div 2 \<and> bottom mod 2 = 0")
    case True
    have "(h1 @ z)[idx := (h1 @ z) ! (bottom - 1)] = h1[idx := h1 ! (bottom - 1)] @ z"
      using b pos assms(2) by (simp add: nth_append list_update_append)
    moreover have "push_heap_by_index cmp (h1[idx := h1 ! (bottom - 1)] @ z) (bottom - 1) 0 v
         = push_heap_by_index cmp (h1[idx := h1 ! (bottom - 1)]) (bottom - 1) 0 v @ z"
      using push_heap_by_index_append [of "bottom - 1" "h1[idx := h1 ! (bottom - 1)]" cmp z 0 v]
        b pos assms(2) by simp
    ultimately show ?thesis
      using True by (simp add: pop_heap_hole_by_index_def pr pa)
  next
    case False
    have "push_heap_by_index cmp (h1 @ z) idx 0 v = push_heap_by_index cmp h1 idx 0 v @ z"
      using push_heap_by_index_append [of idx h1 cmp z 0 v] b assms(2) by simp
    then show ?thesis
      using False by (auto simp: pop_heap_hole_by_index_def pr pa)
  qed
qed

lemma pq_pop_alt:
  assumes "2 \<le> length c"
  shows "pq_pop cmp c = pop_heap_hole_by_index cmp (butlast c) 0 (length c - 1) (last c)"
proof -
  have ne: "c \<noteq> []" "butlast c \<noteq> []" using assms by (auto simp: butlast_conv_take)
  have "c[length c - 1 := c ! 0] = butlast c @ [c ! 0]"
    using ne(1) by (metis append_butlast_last_id length_butlast list_update_length)
  then have "pop_heap cmp c
      = pop_heap_hole_by_index cmp (butlast c) 0 (length c - 1) (last c) @ [c ! 0]"
    using assms pop_heap_hole_by_index_append [OF ne(2), of "length c - 1" cmp "[c ! 0]" "last c"]
    by (simp add: pop_heap_def)
  then show ?thesis by (simp add: pq_pop_def)
qed

lemma pq_pop_short: "length c < 2 \<Longrightarrow> pq_pop cmp c = []"
  by (cases c) (auto simp: pq_pop_def pop_heap_def)

lemma is_heap_pq_pop:
  assumes "is_heap key c"
  shows "is_heap key (pq_pop (\<lambda>a b. key a < key b) c)
       \<and> (c \<noteq> [] \<longrightarrow> mset (pq_pop (\<lambda>a b. key a < key b) c) = mset c - {#pq_top c#})"
proof (cases "2 \<le> length c")
  case False
  then have "length c < 2" by simp
  then show ?thesis
    by (cases c) (auto simp: pq_pop_short is_heap_def pq_top_def)
next
  case True
  let ?h = "butlast c"
  have ne: "c \<noteq> []" "?h \<noteq> []" using True by (auto simp: butlast_conv_take)
  have he: "heap_except key ?h 0"
    unfolding heap_except_def
  proof (intro conjI allI impI)
    fix i assume a: "0 < i \<and> i < length ?h \<and> i \<noteq> 0 \<and> (i - 1) div 2 \<noteq> 0"
    then have "0 < i \<and> i < length c" by auto
    then have "key (c ! i) \<le> key (c ! ((i - 1) div 2))"
      using assms unfolding is_heap_iff by blast
    moreover have "(i - 1) div 2 < length ?h" using a by arith
    ultimately show "key (?h ! i) \<le> key (?h ! ((i - 1) div 2))"
      using a by (simp add: nth_butlast)
  next
    fix i assume "0 < i \<and> i < length ?h \<and> (i - 1) div 2 = 0 \<and> (0::nat) < 0"
    then show "key (?h ! i) \<le> key (?h ! ((0 - 1) div 2))" by simp
  qed
  have bl: "length c - 1 = length ?h" by simp
  from pop_heap_hole_by_index_heap [OF refl bl ne(2) he, of "last c"]
  have hp: "is_heap key (pq_pop (\<lambda>a b. key a < key b) c)"
    and ms: "mset (pq_pop (\<lambda>a b. key a < key b) c) = mset (?h[0 := last c])"
    by (simp_all add: pq_pop_alt [OF True])
  have c: "c = ?h @ [last c]" using ne(1) by simp
  have "0 < length ?h" using True by simp
  then have "?h ! 0 = c ! 0" by (rule nth_butlast)
  then have h0: "?h ! 0 = hd c" using ne(1) by (simp add: hd_conv_nth)
  have "hd c \<in># mset ?h" using ne(2) h0 by (metis length_greater_0_conv nth_mem set_mset_mset)
  then obtain M where M: "mset ?h = add_mset (hd c) M"
    by (meson multi_member_split)
  have "mset (?h @ [last c]) = mset c"
    by (simp only: append_butlast_last_id [OF ne(1)])
  then have mc: "mset c = add_mset (last c) (mset ?h)" by simp
  have "mset (?h[0 := last c]) = add_mset (last c) (mset ?h - {#?h ! 0#})"
    using \<open>0 < length ?h\<close> by (simp only: mset_update)
  then have "mset (?h[0 := last c]) = mset c - {#hd c#}"
    by (simp add: mc M h0)
  with hp ms show ?thesis by (simp add: pq_top_def)
qed

lemma is_heap_pq_push:
  assumes "is_heap key c"
  shows "is_heap key (pq_push (\<lambda>a b. key a < key b) c x)
       \<and> mset (pq_push (\<lambda>a b. key a < key b) c x) = add_mset x (mset c)"
proof (cases "c = []")
  case True
  then show ?thesis by (simp add: pq_push_def push_heap_def is_heap_def)
next
  case False
  let ?c = "c @ [x]"
  have l2: "2 \<le> length ?c" using False by (cases c) auto
  have res: "pq_push (\<lambda>a b. key a < key b) c x
               = push_heap_by_index (\<lambda>a b. key a < key b) ?c (length c) 0 x"
    using l2 by (simp add: pq_push_def push_heap_def)
  have he: "heap_except key ?c (length c)"
    unfolding heap_except_def
  proof (intro conjI allI impI)
    fix i assume a: "0 < i \<and> i < length ?c \<and> i \<noteq> length c \<and> (i - 1) div 2 \<noteq> length c"
    then have il: "i < length c" by simp
    then have "(i - 1) div 2 < length c" by arith
    with a il assms show "key (?c ! i) \<le> key (?c ! ((i - 1) div 2))"
      by (simp add: is_heap_iff nth_append)
  next
    fix i assume a: "0 < i \<and> i < length ?c \<and> (i - 1) div 2 = length c \<and> 0 < length c"
    then have False by (simp, arith)
    then show "key (?c ! i) \<le> key (?c ! ((length c - 1) div 2))" ..
  qed
  have leaf: "\<forall>i. 0 < i \<and> i < length ?c \<and> (i - 1) div 2 = length c \<longrightarrow> key (?c ! i) \<le> key x"
  proof (intro allI impI)
    fix i assume a: "0 < i \<and> i < length ?c \<and> (i - 1) div 2 = length c"
    then have False using False by (simp, arith)
    then show "key (?c ! i) \<le> key x" ..
  qed
  have hl: "length c < length ?c" by simp
  have "is_heap key (push_heap_by_index (\<lambda>a b. key a < key b) ?c (length c) 0 x)"
    using push_heap_by_index_heap [OF refl refl hl he leaf] .
  moreover have "mset (push_heap_by_index (\<lambda>a b. key a < key b) ?c (length c) 0 x)
                   = add_mset x (mset c)"
    using mset_push_heap_by_index [OF hl, of "\<lambda>a b. key a < key b" 0 x] by simp
  ultimately show ?thesis by (simp add: res)
qed

lemma is_heap_top:
  assumes "is_heap key h" and "i < length h"
  shows "key (h ! i) \<le> key (h ! 0)"
  using assms(2)
proof (induction i rule: less_induct)
  case (less i)
  show ?case
  proof (cases "i = 0")
    case True
    then show ?thesis by simp
  next
    case False
    then have p: "(i - 1) div 2 < i" by arith
    with less.prems have "key (h ! ((i - 1) div 2)) \<le> key (h ! 0)"
      using less.IH [of "(i - 1) div 2"] by simp
    moreover have "key (h ! i) \<le> key (h ! ((i - 1) div 2))"
      using assms(1) False less.prems by (simp add: is_heap_iff)
    ultimately show ?thesis by simp
  qed
qed

subsection \<open>The order in which the scan queue hands out requests\<close>

lemma operator_less_key: "operator_less = (\<lambda>a b. priority a < priority b)"
  by (simp add: operator_less_def fun_eq_iff)

lemma queue_state_is_heap: "queue_state c \<Longrightarrow> is_heap priority c"
proof (induction rule: queue_state.induct)
  case empty
  show ?case by (simp add: is_heap_def)
next
  case (push c x)
  then show ?case using is_heap_pq_push [of priority c x] by (simp add: operator_less_key)
next
  case (pop c)
  then show ?case using is_heap_pq_pop [of priority c] by (simp add: operator_less_key)
qed

text \<open>The monitor's queue stays among these queues: events push, workers pop.\<close>

lemma monitor_queue_state:
  assumes "queue_state (m_scanQueue m)"
  shows "queue_state (m_scanQueue (fst (ProcessFileEvent x m s p a)))
       \<and> queue_state (m_scanQueue (fst (WorkerThread_step x m eng s)))"
  using assms
  by (auto simp: ProcessFileEvent_def WorkerThread_step_def Let_def
           intro: queue_state.intros split: prod.splits)

lemma set_pq_pop:
  assumes "is_heap key c"
  shows "set (pq_pop (\<lambda>a b. key a < key b) c) \<subseteq> set c"
proof (cases "c = []")
  case True
  then show ?thesis by (simp add: pq_pop_short)
next
  case False
  then have "mset (pq_pop (\<lambda>a b. key a < key b) c) = mset c - {#pq_top c#}"
    using is_heap_pq_pop [OF assms] by simp
  then have "set_mset (mset (pq_pop (\<lambda>a b. key a < key b) c)) \<subseteq> set_mset (mset c)"
    by (metis in_diffD subsetI)
  then show ?thesis by simp
qed

lemma set_dequeue_n:
  "is_heap key c \<Longrightarrow> set (dequeue_n (\<lambda>a b. key a < key b) n c) \<subseteq> set c"
proof (induction n arbitrary: c)
  case 0
  show ?case by simp
next
  case (Suc n)
  show ?case
  proof (cases "c = []")
    case True
    then show ?thesis by simp
  next
    case False
    have h: "is_heap key (pq_pop (\<lambda>a b. key a < key b) c)"
      using is_heap_pq_pop [OF Suc.prems] by simp
    have "set (dequeue_n (\<lambda>a b. key a < key b) n (pq_pop (\<lambda>a b. key a < key b) c)) \<subseteq> set c"
      using Suc.IH [OF h] set_pq_pop [OF Suc.prems] by blast
    with False show ?thesis by (simp add: pq_top_def)
  qed
qed

lemma pq_top_max:
  assumes "is_heap key c" and "r \<in> set c"
  shows "key r \<le> key (pq_top c)"
proof -
  from assms(2) obtain i where "i < length c" "c ! i = r" by (auto simp: in_set_conv_nth)
  moreover have "c \<noteq> []" using assms(2) by auto
  ultimately show ?thesis
    using is_heap_top [OF assms(1), of i] by (simp add: pq_top_def hd_conv_nth)
qed

lemma dequeue_n_sorted:
  "is_heap key c \<Longrightarrow>
     sorted_wrt (\<lambda>a b. key b \<le> key a) (dequeue_n (\<lambda>a b. key a < key b) n c)"
proof (induction n arbitrary: c)
  case 0
  show ?case by simp
next
  case (Suc n)
  show ?case
  proof (cases "c = []")
    case True
    then show ?thesis by simp
  next
    case False
    let ?c = "pq_pop (\<lambda>a b. key a < key b) c"
    have h: "is_heap key ?c" using is_heap_pq_pop [OF Suc.prems] by simp
    have "\<forall>y \<in> set (dequeue_n (\<lambda>a b. key a < key b) n ?c). key y \<le> key (pq_top c)"
      using set_dequeue_n [OF h, of n] set_pq_pop [OF Suc.prems] pq_top_max [OF Suc.prems]
      by blast
    with False Suc.IH [OF h] show ?thesis by simp
  qed
qed

lemma mset_pq_push: "mset (pq_push cmp c x) = add_mset x (mset c)"
proof (cases "2 \<le> length (c @ [x])")
  case True
  have "length c < length (c @ [x])" by simp
  from mset_push_heap_by_index [OF this, of cmp 0 x] True show ?thesis
    by (simp add: pq_push_def push_heap_def)
next
  case False
  then show ?thesis by (simp add: pq_push_def push_heap_def)
qed

text \<open>
  Claim C6, as amended.  In every queue the monitor can hold, the request handed out
  next has the highest priority of all queued requests, so requests leave the queue in
  order of priority descending; a pop removes exactly that request and a push adds
  exactly the new one.  Nothing is said about requests of equal priority: the
  comparison does not look at the enqueue time.
\<close>

theorem scan_queue_priority_order:
  assumes "queue_state c"
  shows "(\<forall>r \<in> set c. priority r \<le> priority (pq_top c))
       \<and> sorted_wrt (\<lambda>a b. priority b \<le> priority a) (dequeue_n operator_less n c)
       \<and> (c \<noteq> [] \<longrightarrow> mset (pq_pop operator_less c) = mset c - {#pq_top c#})
       \<and> mset (pq_push operator_less c x) = add_mset x (mset c)"
proof -
  have h: "is_heap priority c" using assms by (rule queue_state_is_heap)
  show ?thesis
    using pq_top_max [OF h] dequeue_n_sorted [OF h, of n] is_heap_pq_pop [OF h]
      is_heap_pq_push [OF h, of x]
    by (simp add: operator_less_key)
qed

lemma ex_mixed_val: "ex_mixed = [rq ''b.exe'' 10 2, rq ''a.txt2'' 1 1, rq ''c.doc'' 5 3]"
  by (simp add: ex_mixed_def pq_push_def push_heap_def push_heap_by_index.simps
        operator_less_def rq_def)

theorem scan_queue_priority_order_witness:
  "queue_state ex_mixed
   \<and> list_all (\<lambda>r. priority r \<le> priority (pq_top ex_mixed)) ex_mixed
   \<and> pq_top ex_mixed = rq ''b.exe'' 10 2
   \<and> sorted_wrt (\<lambda>a b. priority b \<le> priority a) (dequeue_n operator_less 3 ex_mixed)"
proof -
  have q: "queue_state ex_mixed"
    unfolding ex_mixed_def by (intro queue_state.intros)
  have t: "pq_top ex_mixed = rq ''b.exe'' 10 2"
    by (simp add: ex_mixed_val pq_top_def)
  from q t scan_queue_priority_order [OF q, of 3] show ?thesis
    by (simp add: list_all_iff)
qed

lemma ex_queue_val:
  "ex_queue = [rq ''a.exe'' 10 1, rq ''b.exe'' 10 2, rq ''c.exe'' 10 3, rq ''d.exe'' 10 4]"
  by (simp add: ex_queue_def pq_push_def push_heap_def push_heap_by_index.simps
        operator_less_def rq_def)

text \<open>
  The claim as stated fails: of four requests of equal priority enqueued at times 1, 2,
  3 and 4, the one enqueued at time 3 is handed out before the one enqueued at time 2.
\<close>

theorem scan_queue_not_fifo:
  "map timestamp (dequeue_n operator_less 4 ex_queue) = [1, 3, 2, 4]"
  by (simp add: ex_queue_val numeral_nat pq_pop_def pop_heap_def pop_heap_hole_by_index_def
        percolate_hole.simps push_heap_by_index.simps operator_less_def rq_def pq_top_def Let_def)

subsection \<open>Quarantine\<close>

lemma LogFormat_fields [simp]:
  "files (LogFormat l lvl msg s) = files s"
  "now (LogFormat l lvl msg s) = now s"
  "move_permitted (LogFormat l lvl msg s) = move_permitted s"
  "metadata_dat (LogFormat l lvl msg s) = metadata_dat s"
  "metadata_writable (LogFormat l lvl msg s) = metadata_writable s"
  by (simp_all add: LogFormat_def)

lemma FileExists_LogFormat [simp]: "FileExists (LogFormat l lvl msg s) p = FileExists s p"
  by (simp add: FileExists_def)

lemma quarantineFile_LogFormat [simp]:
  "quarantineFile x e (LogFormat l lvl msg s) p = quarantineFile x e s p"
  by (simp add: quarantineFile_def)

lemma MoveFile_failed: "\<not> fst (MoveFile s src dst) \<Longrightarrow> snd (MoveFile s src dst) = s"
  by (auto simp: MoveFile_def split: option.splits if_splits)

lemma MoveFile_moved:
  "fst (MoveFile s src dst) \<Longrightarrow>
     files (snd (MoveFile s src dst)) src = None
     \<and> files (snd (MoveFile s src dst)) dst = files s src
     \<and> files s src \<noteq> None
     \<and> metadata_dat (snd (MoveFile s src dst)) = metadata_dat s
     \<and> metadata_writable (snd (MoveFile s src dst)) = metadata_writable s"
  by (auto simp: MoveFile_def split: option.splits if_splits)

lemma MoveFile_LogFormat [simp]:
  "fst (MoveFile (LogFormat l lvl msg s) src dst) = fst (MoveFile s src dst)"
  by (simp add: MoveFile_def split: option.splits)

lemma QuarantineFile_outcome:
  "(\<not> fst (QuarantineFile x e s p n) \<longrightarrow>
       fst (snd (QuarantineFile x e s p n)) = e
     \<and> files (snd (snd (QuarantineFile x e s p n))) = files s
     \<and> metadata_dat (snd (snd (QuarantineFile x e s p n))) = metadata_dat s)
   \<and> (\<not> fst (MoveFile s p (quarantineFile x e s p)) \<longrightarrow> \<not> fst (QuarantineFile x e s p n))
   \<and> (fst (QuarantineFile x e s p n) \<longrightarrow>
         fst (MoveFile s p (quarantineFile x e s p))
       \<and> m_quarantineEntries (fst (snd (QuarantineFile x e s p n))) =
           m_quarantineEntries e @
             [\<lparr>originalPath = p, quarantinePath = quarantineFile x e s p, threatName = n,
               quarantineTime = now s\<rparr>]
       \<and> files (snd (snd (QuarantineFile x e s p n))) p = None
       \<and> files (snd (snd (QuarantineFile x e s p n))) (quarantineFile x e s p) = files s p
       \<and> (metadata_writable s \<longrightarrow>
            metadata_dat (snd (snd (QuarantineFile x e s p n))) =
              m_quarantineEntries (fst (snd (QuarantineFile x e s p n)))))"
proof -
  obtain moved s1 where mv: "MoveFile s p (quarantineFile x e s p) = (moved, s1)"
    by (cases "MoveFile s p (quarantineFile x e s p)")
  have fail: "\<not> moved \<Longrightarrow> s1 = s"
    using MoveFile_failed [of s p "quarantineFile x e s p"] mv by simp
  have ok: "moved \<Longrightarrow> files s1 p = None \<and> files s1 (quarantineFile x e s p) = files s p
      \<and> metadata_dat s1 = metadata_dat s \<and> metadata_writable s1 = metadata_writable s"
    using MoveFile_moved [of s p "quarantineFile x e s p"] mv by simp
  show ?thesis
    using mv fail ok
    by (cases moved) (simp_all add: QuarantineFile_def SaveQuarantineMetadata_def Let_def)
qed

text \<open>
  Claim C5.  When QuarantineFile reports failure, and it does whenever the move of the
  source file into the vault fails, the engine (with its quarantine entries), the file
  system and the persisted index are as before.  When it reports success the move has
  succeeded, one entry for the file has been appended to the index, the file is in
  the vault and no longer at its original path, and the persisted index, when it can be
  written, is the new index.
\<close>

theorem QuarantineFile_move_failure:
  "(\<not> fst (QuarantineFile x e s p n) \<longrightarrow>
       fst (snd (QuarantineFile x e s p n)) = e
     \<and> files (snd (snd (QuarantineFile x e s p n))) = files s
     \<and> metadata_dat (snd (snd (QuarantineFile x e s p n))) = metadata_dat s)
   \<and> (\<not> fst (MoveFile s p (quarantineFile x e s p)) \<longrightarrow> \<not> fst (QuarantineFile x e s p n))
   \<and> (fst (QuarantineFile x e s p n) \<longrightarrow>
         fst (MoveFile s p (quarantineFile x e s p))
       \<and> m_quarantineEntries (fst (snd (QuarantineFile x e s p n))) =
           m_quarantineEntries e @
             [\<lparr>originalPath = p, quarantinePath = quarantineFile x e s p, threatName = n,
               quarantineTime = now s\<rparr>]
       \<and> files (snd (snd (QuarantineFile x e s p n))) p = None
       \<and> files (snd (snd (QuarantineFile x e s p n))) (quarantineFile x e s p) = files s p
       \<and> (metadata_writable s \<longrightarrow>
            metadata_dat (snd (snd (QuarantineFile x e s p n))) =
              m_quarantineEntries (fst (snd (QuarantineFile x e s p n)))))"
  by (rule QuarantineFile_outcome)

text \<open>
  Claim C4.  HandleThreatDetection, which a worker calls for every threat verdict, calls
  QuarantineFile if and only if the severity is at least 8: below 8 it only logs the
  threat and leaves the engine and the files alone; from 8 on the result is that of
  QuarantineFile, so a file that can be moved is moved exactly when the severity is at
  least 8.  A high-entropy verdict of the heuristic pass has severity 7: it is logged
  as a threat and not quarantined.
\<close>

theorem HandleThreatDetection_severity_gate:
  "(threat_level t < 8 \<longrightarrow>
      HandleThreatDetection x m eng s t =
        (eng, LogFormat (fm_logger m) Critical
                (THREAT_DETECTED (threat_name t) (file_path t) (threat_level t)) s))
   \<and> (8 \<le> threat_level t \<longrightarrow>
        fst (HandleThreatDetection x m (Some e) s t) =
          Some (fst (snd (QuarantineFile x e
             (LogFormat (fm_logger m) Critical
                (THREAT_DETECTED (threat_name t) (file_path t) (threat_level t)) s)
             (file_path t) (threat_name t))))
      \<and> files (snd (HandleThreatDetection x m (Some e) s t)) =
          files (snd (snd (QuarantineFile x e
             (LogFormat (fm_logger m) Critical
                (THREAT_DETECTED (threat_name t) (file_path t) (threat_level t)) s)
             (file_path t) (threat_name t)))))
   \<and> (m_initialized e \<and> FileExists s (file_path t)
        \<and> fst (MoveFile s (file_path t) (quarantineFile x e s (file_path t))) \<longrightarrow>
        (files (snd (HandleThreatDetection x m (Some e) s t)) (file_path t) = None
          \<and> fst (HandleThreatDetection x m (Some e) s t) \<noteq> Some e)
        = (8 \<le> threat_level t))
   \<and> (fst (ScanWithHeuristics x data p t0)
        \<and> threat_name (snd (ScanWithHeuristics x data p t0)) = ''Heuristic.Suspicious.HighEntropy'' \<longrightarrow>
        threat_level (snd (ScanWithHeuristics x data p t0)) = 7
        \<and> HandleThreatDetection x m eng s
             ((snd (ScanWithHeuristics x data p t0))\<lparr>file_path := p, file_size := length data\<rparr>) =
           (eng, LogFormat (fm_logger m) Critical
                   (THREAT_DETECTED ''Heuristic.Suspicious.HighEntropy'' p 7) s))"
proof -
  let ?s1 = "LogFormat (fm_logger m) Critical
                (THREAT_DETECTED (threat_name t) (file_path t) (threat_level t)) s"
  have low: "threat_level t < 8 \<longrightarrow> HandleThreatDetection x m g s t = (g, ?s1)" for g
    by (simp add: HandleThreatDetection_def Let_def not_le [symmetric])
  have high: "8 \<le> threat_level t \<longrightarrow>
        fst (HandleThreatDetection x m (Some e) s t) =
          Some (fst (snd (QuarantineFile x e ?s1 (file_path t) (threat_name t))))
      \<and> files (snd (HandleThreatDetection x m (Some e) s t)) =
          files (snd (snd (QuarantineFile x e ?s1 (file_path t) (threat_name t))))"
    by (simp add: HandleThreatDetection_def Let_def split: prod.splits)
  have iff: "m_initialized e \<and> FileExists s (file_path t)
        \<and> fst (MoveFile s (file_path t) (quarantineFile x e s (file_path t))) \<longrightarrow>
        (files (snd (HandleThreatDetection x m (Some e) s t)) (file_path t) = None
          \<and> fst (HandleThreatDetection x m (Some e) s t) \<noteq> Some e)
        = (8 \<le> threat_level t)"
  proof (intro impI, elim conjE)
    assume init: "m_initialized e" and ex: "FileExists s (file_path t)"
      and mv: "fst (MoveFile s (file_path t) (quarantineFile x e s (file_path t)))"
    obtain a b where ab: "MoveFile ?s1 (file_path t) (quarantineFile x e s (file_path t)) = (a, b)"
      by (cases "MoveFile ?s1 (file_path t) (quarantineFile x e s (file_path t))")
    have "fst (MoveFile ?s1 (file_path t) (quarantineFile x e s (file_path t)))
            = fst (MoveFile s (file_path t) (quarantineFile x e s (file_path t)))"
      by (rule MoveFile_LogFormat)
    with mv ab have a by simp
    with init ex ab have q: "fst (QuarantineFile x e ?s1 (file_path t) (threat_name t))"
      by (simp add: QuarantineFile_def Let_def)
    note Q = QuarantineFile_outcome [of x e ?s1 "file_path t" "threat_name t"]
    show "(files (snd (HandleThreatDetection x m (Some e) s t)) (file_path t) = None
          \<and> fst (HandleThreatDetection x m (Some e) s t) \<noteq> Some e)
        = (8 \<le> threat_level t)"
    proof (cases "8 \<le> threat_level t")
      case True
      have "m_quarantineEntries (fst (snd (QuarantineFile x e ?s1 (file_path t) (threat_name t))))
              \<noteq> m_quarantineEntries e"
        using Q q by simp
      then have "fst (snd (QuarantineFile x e ?s1 (file_path t) (threat_name t))) \<noteq> e"
        by auto
      with True high Q q show ?thesis by simp
    next
      case False
      then have "threat_level t < 8" by simp
      with low [of "Some e"] ex False show ?thesis
        by (auto simp: FileExists_def split: option.splits)
    qed
  qed
  have he: "fst (ScanWithHeuristics x data p t0)
        \<and> threat_name (snd (ScanWithHeuristics x data p t0)) = ''Heuristic.Suspicious.HighEntropy'' \<longrightarrow>
        threat_level (snd (ScanWithHeuristics x data p t0)) = 7
        \<and> HandleThreatDetection x m eng s
             ((snd (ScanWithHeuristics x data p t0))\<lparr>file_path := p, file_size := length data\<rparr>) =
           (eng, LogFormat (fm_logger m) Critical
                   (THREAT_DETECTED ''Heuristic.Suspicious.HighEntropy'' p 7) s)"
    by (simp add: ScanWithHeuristics_def HandleThreatDetection_def Let_def split: if_splits)
  from low [of eng] high iff he show ?thesis by blast
qed

lemma qf: "quarantineFile ex_externals (ex_engine default_signatures) (ex_evil b) ''C:/in/evil.exe''
   = ''C:/q'' @ [CHR 0x5C] @ ''1700000000_C:/in/evil.exe''"
  by (simp add: quarantineFile_def ex_externals_def ex_engine_def ex_evil_def ex_sys_def)

theorem QuarantineFile_move_failure_witness:
  "\<not> fst (QuarantineFile ex_externals (ex_engine default_signatures) (ex_evil False)
            ''C:/in/evil.exe'' ''Ransomware.Generic.Extension'')
   \<and> fst (snd (QuarantineFile ex_externals (ex_engine default_signatures) (ex_evil False)
            ''C:/in/evil.exe'' ''Ransomware.Generic.Extension'')) = ex_engine default_signatures
   \<and> files (snd (snd (QuarantineFile ex_externals (ex_engine default_signatures) (ex_evil False)
            ''C:/in/evil.exe'' ''Ransomware.Generic.Extension''))) = files (ex_evil False)
   \<and> fst (QuarantineFile ex_externals (ex_engine default_signatures) (ex_evil True)
            ''C:/in/evil.exe'' ''Ransomware.Generic.Extension'')
   \<and> files (snd (snd (QuarantineFile ex_externals (ex_engine default_signatures) (ex_evil True)
            ''C:/in/evil.exe'' ''Ransomware.Generic.Extension''))) ''C:/in/evil.exe'' = None
   \<and> length (m_quarantineEntries (fst (snd (QuarantineFile ex_externals (ex_engine default_signatures)
            (ex_evil True) ''C:/in/evil.exe'' ''Ransomware.Generic.Extension'')))) = 1"
proof -
  have f: "\<not> fst (QuarantineFile ex_externals (ex_engine default_signatures) (ex_evil False)
            ''C:/in/evil.exe'' ''Ransomware.Generic.Extension'')"
    by (simp add: QuarantineFile_def MoveFile_def FileExists_def Let_def ex_engine_def
          ex_evil_def ex_sys_def)
  have t: "fst (QuarantineFile ex_externals (ex_engine default_signatures) (ex_evil True)
            ''C:/in/evil.exe'' ''Ransomware.Generic.Extension'')"
    by (simp add: QuarantineFile_def MoveFile_def FileExists_def Let_def qf)
       (simp add: ex_engine_def ex_evil_def ex_sys_def Let_def)
  have e: "m_quarantineEntries (ex_engine default_signatures) = []"
    by (simp add: ex_engine_def)
  from f t e
    QuarantineFile_move_failure [of ex_externals "ex_engine default_signatures" "ex_evil False"
       "''C:/in/evil.exe''" "''Ransomware.Generic.Extension''"]
    QuarantineFile_move_failure [of ex_externals "ex_engine default_signatures" "ex_evil True"
       "''C:/in/evil.exe''" "''Ransomware.Generic.Extension''"]
  show ?thesis by simp
qed

theorem HandleThreatDetection_severity_gate_witness:
  "m_initialized (ex_engine default_signatures)
   \<and> FileExists (ex_evil True) ''C:/in/evil.exe''
   \<and> files (snd (HandleThreatDetection ex_externals ex_monitor (Some (ex_engine default_signatures))
         (ex_evil True)
         \<lparr>file_path = ''C:/in/evil.exe'', threat_name = ''Ransomware.Generic.Extension'',
           threat_level = 10, file_size = 8\<rparr>)) ''C:/in/evil.exe'' = None
   \<and> HandleThreatDetection ex_externals ex_monitor (Some (ex_engine default_signatures))
         (ex_evil True)
         \<lparr>file_path = ''C:/in/evil.exe'', threat_name = ''Heuristic.Suspicious.HighEntropy'',
           threat_level = 7, file_size = 8\<rparr>
       = (Some (ex_engine default_signatures),
          LogFormat True Critical
            (THREAT_DETECTED ''Heuristic.Suspicious.HighEntropy'' ''C:/in/evil.exe'' 7) (ex_evil True))"
proof -
  let ?t10 = "\<lparr>file_path = ''C:/in/evil.exe'', threat_name = ''Ransomware.Generic.Extension'',
           threat_level = 10, file_size = 8\<rparr>"
  let ?t7 = "\<lparr>file_path = ''C:/in/evil.exe'', threat_name = ''Heuristic.Suspicious.HighEntropy'',
           threat_level = 7, file_size = 8\<rparr>"
  let ?e = "ex_engine default_signatures"
  have i: "m_initialized ?e" by (simp add: ex_engine_def)
  have f: "FileExists (ex_evil True) ''C:/in/evil.exe''"
    by (simp add: FileExists_def ex_evil_def ex_sys_def)
  have m: "fst (MoveFile (ex_evil True) ''C:/in/evil.exe''
             (quarantineFile ex_externals ?e (ex_evil True) ''C:/in/evil.exe''))"
    by (simp add: MoveFile_def qf) (simp add: ex_evil_def ex_sys_def)
  have l: "fm_logger ex_monitor" by (simp add: ex_monitor_def)
  have a: "files (snd (HandleThreatDetection ex_externals ex_monitor (Some ?e) (ex_evil True) ?t10))
             ''C:/in/evil.exe'' = None"
    using i f m
      HandleThreatDetection_severity_gate [of ?t10 ex_externals ex_monitor "Some ?e" "ex_evil True" ?e
        "[]" "[]" ex_threat]
    by auto
  have b: "HandleThreatDetection ex_externals ex_monitor (Some ?e) (ex_evil True) ?t7
       = (Some ?e, LogFormat True Critical
            (THREAT_DETECTED ''Heuristic.Suspicious.HighEntropy'' ''C:/in/evil.exe'' 7) (ex_evil True))"
    using l
      HandleThreatDetection_severity_gate [of ?t7 ex_externals ex_monitor "Some ?e" "ex_evil True" ?e
        "[]" "[]" ex_threat]
    by simp
  from i f a b show ?thesis by simp
qed

subsection \<open>Enqueueing file events\<close>

text \<open>
  Claim C7, as amended.  Every file event that passes the filter (real-time protection
  on, path not skipped, action added or modified) pushes one new request for its path,
  whatever the queue already holds: the queued requests grow by exactly that request.
  Every other event leaves the monitor as it is.  There is no duplicate suppression.
\<close>

theorem ProcessFileEvent_enqueues:
  "(m_realTimeProtectionEnabled m \<and> \<not> ShouldSkipFile x p
      \<and> (a = FILE_ACTION_ADDED \<or> a = FILE_ACTION_MODIFIED) \<longrightarrow>
      mset (m_scanQueue (fst (ProcessFileEvent x m s p a))) =
        add_mset \<lparr>filePath = p, priority = DetermineScanPriority x p, timestamp = now s\<rparr>
          (mset (m_scanQueue m))
      \<and> length (m_scanQueue (fst (ProcessFileEvent x m s p a))) = Suc (length (m_scanQueue m)))
   \<and> (\<not> (m_realTimeProtectionEnabled m \<and> \<not> ShouldSkipFile x p
          \<and> (a = FILE_ACTION_ADDED \<or> a = FILE_ACTION_MODIFIED)) \<longrightarrow>
        ProcessFileEvent x m s p a = (m, s))"
proof -
  let ?r = "\<lparr>filePath = p, priority = DetermineScanPriority x p, timestamp = now s\<rparr>"
  have "length (pq_push operator_less (m_scanQueue m) ?r) = Suc (length (m_scanQueue m))"
    using mset_pq_push [of operator_less "m_scanQueue m" ?r]
    by (metis size_mset size_add_mset)
  then show ?thesis
    by (auto simp: ProcessFileEvent_def Let_def mset_pq_push)
qed

lemma ex_skip: "\<not> ShouldSkipFile ex_externals ''C:/in/evil.exe''"
  by (simp add: ShouldSkipFile_def contains_def tolower_def ex_externals_def skipExtensions_def
        Let_def)

lemma ex_prio: "DetermineScanPriority ex_externals ''C:/in/evil.exe'' = 10"
  by (simp add: DetermineScanPriority_def tolower_def ex_externals_def Let_def)

lemma ex_first_queue:
  "m_scanQueue (fst ex_first_event) = [\<lparr>filePath = ''C:/in/evil.exe'', priority = 10, timestamp = 1700000000\<rparr>]"
  by (simp add: ex_first_event_def ProcessFileEvent_def ex_skip ex_prio Let_def ex_monitor_def
        FILE_ACTION_ADDED_def pq_push_def push_heap_def ex_sys_def)

text \<open>
  The claim as stated fails: a second event for a path that is already queued with the
  same priority is not a no-op; the queue then holds two requests for the path, the
  newer one with a priority equal to that of the older one.
\<close>

theorem ProcessFileEvent_duplicate:
  "m_scanQueue (fst ex_first_event) =
     [\<lparr>filePath = ''C:/in/evil.exe'', priority = 10, timestamp = 1700000000\<rparr>]
   \<and> m_scanQueue (fst ex_second_event) =
     [\<lparr>filePath = ''C:/in/evil.exe'', priority = 10, timestamp = 1700000000\<rparr>,
      \<lparr>filePath = ''C:/in/evil.exe'', priority = 10, timestamp = 1700000001\<rparr>]"
  by (simp add: ex_first_queue)
     (simp add: ex_second_event_def ProcessFileEvent_def ex_skip ex_prio Let_def
        FILE_ACTION_ADDED_def FILE_ACTION_MODIFIED_def pq_push_def push_heap_def
        push_heap_by_index.simps operator_less_def ex_first_queue,
      simp add: ex_first_event_def ProcessFileEvent_def ex_skip ex_prio Let_def ex_monitor_def
        FILE_ACTION_ADDED_def)

theorem ProcessFileEvent_enqueues_witness:
  "m_realTimeProtectionEnabled (fst ex_first_event)
   \<and> \<not> ShouldSkipFile ex_externals ''C:/in/evil.exe''
   \<and> length (m_scanQueue (fst ex_second_event)) = 2"
proof -
  have e: "m_realTimeProtectionEnabled (fst ex_first_event)"
    by (simp add: ex_first_event_def ProcessFileEvent_def ex_skip Let_def ex_monitor_def
        FILE_ACTION_ADDED_def)
  from e ex_skip ex_first_queue
    ProcessFileEvent_enqueues [of "fst ex_first_event" ex_externals "''C:/in/evil.exe''"
      FILE_ACTION_MODIFIED "(snd ex_first_event)\<lparr>now := 1700000001\<rparr>"]
  show ?thesis by (simp add: ex_second_event_def)
qed

subsection \<open>Scan statistics\<close>

lemma ScanSingleFile_counts:
  assumes "\<not> m_cancelRequested sc"
  shows "scannedFiles (m_statistics (fst (snd (ScanSingleFile x sc eng s p ths))))
          + skippedFiles (m_statistics (fst (snd (ScanSingleFile x sc eng s p ths))))
         = scannedFiles (m_statistics sc) + skippedFiles (m_statistics sc) + 1
       \<and> totalFiles (m_statistics (fst (snd (ScanSingleFile x sc eng s p ths))))
         = totalFiles (m_statistics sc)
       \<and> m_cancelRequested (fst (snd (ScanSingleFile x sc eng s p ths))) = m_cancelRequested sc"
  using assms
  by (auto simp: ScanSingleFile_def UpdateProgress_def Let_def split: prod.splits option.splits)

lemma ScanDirectoryRecursive_loop_balance:
  "\<not> m_cancelRequested sc \<Longrightarrow>
     scannedFiles (m_statistics (fst (ScanDirectoryRecursive_loop x sc eng s es ths)))
       + skippedFiles (m_statistics (fst (ScanDirectoryRecursive_loop x sc eng s es ths)))
       + totalFiles (m_statistics sc)
     = scannedFiles (m_statistics sc) + skippedFiles (m_statistics sc)
       + totalFiles (m_statistics (fst (ScanDirectoryRecursive_loop x sc eng s es ths)))"
proof (induction es arbitrary: sc s ths)
  case Nil
  show ?case by simp
next
  case (Cons entry rest)
  show ?case
  proof (cases "FileExists s entry")
    case False
    with Cons show ?thesis by simp
  next
    case True
    let ?sc1 = "sc\<lparr>m_statistics := (m_statistics sc)
                     \<lparr>totalFiles := totalFiles (m_statistics sc) + 1,
                      totalBytes := totalBytes (m_statistics sc) + GetFileSize s entry\<rparr>\<rparr>"
    obtain r sc2 ths2 s2 where r: "ScanSingleFile x ?sc1 eng s entry ths = (r, sc2, ths2, s2)"
      by (cases "ScanSingleFile x ?sc1 eng s entry ths") auto
    have nc: "\<not> m_cancelRequested ?sc1" using Cons.prems by simp
    from ScanSingleFile_counts [OF nc, of x eng s entry ths] r
    have c: "scannedFiles (m_statistics sc2) + skippedFiles (m_statistics sc2)
               = scannedFiles (m_statistics sc) + skippedFiles (m_statistics sc) + 1"
      and t: "totalFiles (m_statistics sc2) = totalFiles (m_statistics sc) + 1"
      and nc2: "\<not> m_cancelRequested sc2"
      using Cons.prems by simp_all
    have step: "ScanDirectoryRecursive_loop x sc eng s (entry # rest) ths
                  = ScanDirectoryRecursive_loop x sc2 eng s2 rest ths2"
      using True Cons.prems r by (simp add: Let_def)
    from Cons.IH [OF nc2, of s2 ths2] c t show ?thesis
      unfolding step by simp
  qed
qed

lemma Scanner_ScanFile_counts:
  assumes "\<not> m_cancelRequested sc"
  shows "totalFiles (m_statistics (fst (snd (Scanner_ScanFile x sc eng s p ths)))) = 0
       \<and> scannedFiles (m_statistics (fst (snd (Scanner_ScanFile x sc eng s p ths))))
           + skippedFiles (m_statistics (fst (snd (Scanner_ScanFile x sc eng s p ths)))) = 1"
proof -
  let ?s1 = "LogFormat (sc_logger sc) Info (StartingFileScan p) s"
  let ?sc2 = "(ResetStatistics sc ?s1)\<lparr>m_statistics :=
                 (m_statistics (ResetStatistics sc ?s1))\<lparr>startTime := now ?s1\<rparr>\<rparr>"
  have nc: "\<not> m_cancelRequested ?sc2" using assms by (simp add: ResetStatistics_def)
  obtain r sc3 t3 s3 where r: "ScanSingleFile x ?sc2 eng ?s1 p ths = (r, sc3, t3, s3)"
    by (cases "ScanSingleFile x ?sc2 eng ?s1 p ths") auto
  from ScanSingleFile_counts [OF nc, of x eng ?s1 p ths] r
  have "scannedFiles (m_statistics sc3) + skippedFiles (m_statistics sc3) = 1"
    and "totalFiles (m_statistics sc3) = 0"
    by (simp_all add: ResetStatistics_def)
  then show ?thesis
    unfolding Scanner_ScanFile_def Let_def r by simp
qed

text \<open>
  Claim C8.  The statistics of a scan are to satisfy scanned_files + skipped_files \<le>
  total_files.  The directory walk keeps scanned + skipped in step with total (lemma
  \<open>ScanDirectoryRecursive_loop_balance\<close>), but the scan of a single file counts the file
  as scanned or skipped and never as one of the total: after \<open>Scanner::ScanFile\<close> on an
  existing file, total_files is 0 and scanned_files + skipped_files is 1.
\<close>

theorem Scanner_ScanFile_statistics:
  "totalFiles (m_statistics (fst (snd (Scanner_ScanFile ex_externals ex_scanner
      (Some (ex_engine default_signatures)) (ex_evil True) ''C:/in/evil.exe'' [])))) = 0
   \<and> scannedFiles (m_statistics (fst (snd (Scanner_ScanFile ex_externals ex_scanner
        (Some (ex_engine default_signatures)) (ex_evil True) ''C:/in/evil.exe'' []))))
     + skippedFiles (m_statistics (fst (snd (Scanner_ScanFile ex_externals ex_scanner
        (Some (ex_engine default_signatures)) (ex_evil True) ''C:/in/evil.exe'' [])))) = 1"
proof -
  have "\<not> m_cancelRequested ex_scanner" by (simp add: ex_scanner_def)
  then show ?thesis by (rule Scanner_ScanFile_counts)
qed

subsection \<open>Extraction of ZIP entries\<close>

lemma ex_lfh: "read_lfh ex_zip = Some \<lparr>lfh_signature = 0x04034b50, lfh_version = 20, lfh_flags = 0,
                 lfh_compression = 8, lfh_modTime = 0, lfh_modDate = 0x5821,
                 lfh_crc32 = 0xEEAC93B9, lfh_compressedSize = 5,
                 lfh_uncompressedSize = 5, lfh_fileNameLength = 1,
                 lfh_extraFieldLength = 0\<rparr>"
  by (simp add: read_lfh_def ex_zip_def le16_def le32_def)

lemma extractZipEntry_methods:
  assumes "extractZipEntry a s zipPath entry outputPath = Some (True, s')"
      and "files s zipPath = Some zf"
      and "read_lfh (drop (unat (localHeaderOffset entry)) (bytes zf)) = Some lfh"
  shows "lfh_compression lfh = 0
       \<or> lfh_compression lfh = 8 \<and> lfh_compressedSize lfh = lfh_uncompressedSize lfh"
  using assms
  by (auto simp: extractZipEntry_def Let_def split: if_splits)

text \<open>
  Claim C9.  Extraction is to be performed for the Stored method only.  For a Deflate
  entry whose compressed and uncompressed sizes are equal, \<open>extractZipEntry\<close> returns
  true and leaves the raw Deflate bytes in the output file: here the five bytes
  4B 4C 04 02 00 in place of the text \<open>aaaaa\<close>.
\<close>

theorem extractZipEntry_deflate_copied:
  "map_option fst (extractZipEntry ex_archive_scanner ex_zip_sys ''C:/in/a.zip'' ex_zip_entry ''C:/t/a'')
     = Some True
   \<and> map_option (\<lambda>r. files (snd r) ''C:/t/a'')
       (extractZipEntry ex_archive_scanner ex_zip_sys ''C:/in/a.zip'' ex_zip_entry ''C:/t/a'')
     = Some (Some \<lparr>is_regular_file = True,
                    bytes = [CHR 0x4B, CHR 0x4C, CHR 0x04, CHR 0x02, CHR 0x00], can_open = True\<rparr>)"
proof -
  have st: "drop 31 ex_zip = [CHR 0x4B, CHR 0x4C, CHR 0x04, CHR 0x02, CHR 0x00]"
    by (simp add: ex_zip_def)
  show ?thesis
    by (simp add: extractZipEntry_def ex_zip_entry_def ex_archive_scanner_def ex_zip_sys_def
          ex_sys_def ex_lfh st read_buffer_def write_output_def LogFormat_def Let_def)
qed

subsection \<open>Database update\<close>

text \<open>
  Claim C10.  UpdateDatabase always returns true, adds exactly one to the 32-bit database
  version counter, and changes no other member of the engine: the signature list, the
  signature count, the heuristic rules and the quarantine entries are as before.
\<close>

theorem UpdateDatabase_frame:
  "fst (UpdateDatabase e s) = True
   \<and> fst (snd (UpdateDatabase e s)) = e\<lparr>m_databaseVersion := m_databaseVersion e + 1\<rparr>
   \<and> unat (m_databaseVersion (fst (snd (UpdateDatabase e s)))) = (unat (m_databaseVersion e) + 1) mod 2 ^ 32
   \<and> m_signatures (fst (snd (UpdateDatabase e s))) = m_signatures e
   \<and> m_signatureCount (fst (snd (UpdateDatabase e s))) = m_signatureCount e
   \<and> m_heuristicRules (fst (snd (UpdateDatabase e s))) = m_heuristicRules e
   \<and> m_quarantineEntries (fst (snd (UpdateDatabase e s))) = m_quarantineEntries e"
  by (simp add: UpdateDatabase_def Let_def unat_word_ariths)

end
